theory Spec2Isabelle
  imports Complex_Main "HOL-Library.Word" "HOL-Library.Multiset"
begin

unbundle bit_operations_syntax

section \<open>Data model\<close>

text \<open>
  The development follows \<^verbatim>\<open>src/wtf/analysis/db/eventdatabase.js\<close> (the event database
  and its trace listener) and \<^verbatim>\<open>wtf.analysis.Flow\<close>. JavaScript numbers that hold
  times are rationals, counters are naturals (the code only increments them), the
  32-bit result of \<^verbatim>\<open>&\<close> is a \<^typ>\<open>32 word\<close>, identifiers and property keys are
  \<^typ>\<open>string\<close>s, and the text of a query, whose single characters the code inspects, is
  a list of UTF-16 code units.
\<close>

type_synonym code_unit = "16 word"
type_synonym js_string = "code_unit list"

text \<open>
  The values the arguments of an event hold are those a trace carries: primitives, and
  objects and arrays as the list of their own properties.
\<close>

datatype js_value =
  JUndefined | JNull | JBoolean bool | JNumber rat | JString string
  | JObject "(string \<times> js_value) list"

datatype js_error = AssertionError | InvalidRegex | TypeError | XPathError

text \<open>
  Objects that the code compares by reference carry an identity field (\<open>zone_id\<close>,
  \<open>type_id\<close>), so that equality of the record is equality of the reference.
\<close>

record zone =
  zone_id :: nat
  zone_name :: string
  zone_type :: string
  zone_location :: string

record arg =
  arg_name :: string
  arg_typeName :: string

record event_type =
  type_id :: nat
  name :: string
  flags :: "32 word"
  type_args :: "arg list"

text \<open>
  An event: \<open>args\<close> is the object \<^verbatim>\<open>e.args\<close> as its list of properties,
  \<open>zone_value\<close> is \<^verbatim>\<open>e.value\<close> (the zone a \<^verbatim>\<open>wtf.zone#create\<close> event creates;
  \<open>None\<close> where the property is undefined) and \<open>isScopeEvent\<close> is
  \<^verbatim>\<open>e instanceof wtf.analysis.ScopeEvent\<close>.
\<close>

record event =
  eventType :: event_type
  zone :: "zone option"
  time :: rat
  args :: "(string \<times> js_value) list"
  position :: nat
  zone_value :: "zone option"
  isScopeEvent :: bool

subsection \<open>The indices the database owns\<close>

text \<open>
  Modelled from the spec: \<^verbatim>\<open>wtf.analysis.db.FrameIndex\<close>, \<^verbatim>\<open>ZoneIndex\<close>,
  \<^verbatim>\<open>EventIndex\<close> and \<^verbatim>\<open>SummaryIndex\<close> are not among the sources. Each index is the
  list of events it stores and its inserting flag (sections 4.2 to 4.5 of the
  specification): a zone index stores the events of its zone, an event index those of
  its event name, the summary index sees every event, and ending an insertion sorts the
  events by time, keeping the order of insertion among equal times. The scope forest of
  a zone index is outside this development. Each index holds the events as values; the
  positions that \<^verbatim>\<open>renumber\<close> assigns are those of the events of the zone indices.
\<close>

record frame_index =
  frames :: "event list"

record zone_index =
  zi_zone :: "zone option"
  zi_events :: "event list"
  zi_inserting :: bool
  zi_frameIndex :: frame_index

record event_index =
  ei_eventName :: string
  ei_events :: "event list"
  ei_inserting :: bool

record summary_index =
  si_events :: "event list"
  si_inserting :: bool

definition getCount :: "frame_index \<Rightarrow> nat" where
  "getCount f = length (frames f)"

definition getFrameIndex :: "zone_index \<Rightarrow> frame_index" where
  "getFrameIndex z = zi_frameIndex z"

definition getZone :: "zone_index \<Rightarrow> zone option" where
  "getZone z = zi_zone z"

definition getEventName :: "event_index \<Rightarrow> string" where
  "getEventName i = ei_eventName i"

definition new_ZoneIndex :: "zone option \<Rightarrow> zone_index" where
  "new_ZoneIndex z =
     \<lparr>zi_zone = z, zi_events = [], zi_inserting = False, zi_frameIndex = \<lparr>frames = []\<rparr>\<rparr>"


definition new_SummaryIndex :: summary_index where
  "new_SummaryIndex = \<lparr>si_events = [], si_inserting = False\<rparr>"

definition SummaryIndex_beginInserting :: "summary_index \<Rightarrow> summary_index" where
  "SummaryIndex_beginInserting s = s\<lparr>si_inserting := True\<rparr>"

definition SummaryIndex_insertEvent :: "event \<Rightarrow> summary_index \<Rightarrow> summary_index" where
  "SummaryIndex_insertEvent e s = s\<lparr>si_events := si_events s @ [e]\<rparr>"

definition SummaryIndex_endInserting :: "summary_index \<Rightarrow> summary_index" where
  "SummaryIndex_endInserting s = s\<lparr>si_inserting := False\<rparr>"

definition ZoneIndex_beginInserting :: "zone_index \<Rightarrow> zone_index" where
  "ZoneIndex_beginInserting z = z\<lparr>zi_inserting := True\<rparr>"

definition ZoneIndex_insertEvent :: "event \<Rightarrow> zone_index \<Rightarrow> zone_index" where
  "ZoneIndex_insertEvent e z =
     (if zone e = zi_zone z then z\<lparr>zi_events := zi_events z @ [e]\<rparr> else z)"

definition ZoneIndex_endInserting :: "zone_index \<Rightarrow> zone_index" where
  "ZoneIndex_endInserting z =
     z\<lparr>zi_events := sort_key time (zi_events z), zi_inserting := False\<rparr>"

text \<open>
  Modelled from the spec: \<^verbatim>\<open>ZoneIndex.renumber(startPosition)\<close> "assigns positions to
  all events in time order starting from startPosition and returns the next free
  position" (section 4.5).
\<close>

fun renumber_events :: "nat \<Rightarrow> event list \<Rightarrow> event list" where
  "renumber_events p [] = []"
| "renumber_events p (e # es) = e\<lparr>position := p\<rparr> # renumber_events (Suc p) es"

definition ZoneIndex_renumber :: "zone_index \<Rightarrow> nat \<Rightarrow> zone_index \<times> nat" where
  "ZoneIndex_renumber z p =
     (z\<lparr>zi_events := renumber_events p (zi_events z)\<rparr>, p + length (zi_events z))"

definition EventIndex_beginInserting :: "event_index \<Rightarrow> event_index" where
  "EventIndex_beginInserting i = i\<lparr>ei_inserting := True\<rparr>"

definition EventIndex_insertEvent :: "event \<Rightarrow> event_index \<Rightarrow> event_index" where
  "EventIndex_insertEvent e i =
     (if name (eventType e) = ei_eventName i then i\<lparr>ei_events := ei_events i @ [e]\<rparr> else i)"

definition EventIndex_endInserting :: "event_index \<Rightarrow> event_index" where
  "EventIndex_endInserting i =
     i\<lparr>ei_events := sort_key time (ei_events i), ei_inserting := False\<rparr>"

subsection \<open>The database\<close>

text \<open>
  The index objects live in the arrays of the database, which only grow; a reference
  to one of them (an entry of the listener's target list, the result of
  \<^verbatim>\<open>getEventIndex\<close>) is its place in its array. \<open>effects\<close> records, in order, the
  calls the code makes on its targets and the events the database emits. A source is
  held as the name of its context info.
\<close>

datatype target_ref = SummaryRef | ZoneRef nat | EventIndexRef nat

datatype db_event =
    SOURCES_CHANGED
  | SOURCE_ERROR string "string option"
  | ZONES_ADDED "zone_index list"
  | INVALIDATED

datatype effect =
    BeginInserting target_ref
  | InsertEvent target_ref event
  | EndInserting target_ref
  | Renumber nat nat
  | EmitEvent db_event

record database =
  sources :: "string list"
  totalEventCount :: nat
  summaryIndex :: summary_index
  zoneIndices :: "zone_index list"
  eventIndices :: "event_index list"
  effects :: "effect list"

definition new_EventDatabase :: database where
  "new_EventDatabase =
     \<lparr>sources = [], totalEventCount = 0, summaryIndex = new_SummaryIndex,
      zoneIndices = [], eventIndices = [], effects = []\<rparr>"

definition emitEvent :: "db_event \<Rightarrow> database \<Rightarrow> database" where
  "emitEvent ev d = d\<lparr>effects := effects d @ [EmitEvent ev]\<rparr>"

definition invalidate :: "database \<Rightarrow> database" where
  "invalidate d = emitEvent INVALIDATED d"

definition getTotalEventCount :: "database \<Rightarrow> nat" where
  "getTotalEventCount d = totalEventCount d"

definition getNodePosition :: "database \<Rightarrow> nat" where
  "getNodePosition d = 0"

text \<open>A method call on a target: the call is recorded and the object it names changes.\<close>

definition on_target ::
  "target_ref \<Rightarrow> (summary_index \<Rightarrow> summary_index) \<Rightarrow> (zone_index \<Rightarrow> zone_index) \<Rightarrow>
   (event_index \<Rightarrow> event_index) \<Rightarrow> database \<Rightarrow> database" where
  "on_target r fs fz fi d =
     (case r of
        SummaryRef \<Rightarrow> d\<lparr>summaryIndex := fs (summaryIndex d)\<rparr>
      | ZoneRef n \<Rightarrow> d\<lparr>zoneIndices := (zoneIndices d)[n := fz (zoneIndices d ! n)]\<rparr>
      | EventIndexRef n \<Rightarrow> d\<lparr>eventIndices := (eventIndices d)[n := fi (eventIndices d ! n)]\<rparr>)"

definition beginInserting :: "target_ref \<Rightarrow> database \<Rightarrow> database" where
  "beginInserting r d =
     on_target r SummaryIndex_beginInserting ZoneIndex_beginInserting EventIndex_beginInserting
       (d\<lparr>effects := effects d @ [BeginInserting r]\<rparr>)"

definition insertEvent :: "event \<Rightarrow> target_ref \<Rightarrow> database \<Rightarrow> database" where
  "insertEvent e r d =
     on_target r (SummaryIndex_insertEvent e) (ZoneIndex_insertEvent e) (EventIndex_insertEvent e)
       (d\<lparr>effects := effects d @ [InsertEvent r e]\<rparr>)"

definition endInserting :: "target_ref \<Rightarrow> database \<Rightarrow> database" where
  "endInserting r d =
     on_target r SummaryIndex_endInserting ZoneIndex_endInserting EventIndex_endInserting
       (d\<lparr>effects := effects d @ [EndInserting r]\<rparr>)"

subsection \<open>Looking up and creating indices\<close>

text \<open>
  \<^verbatim>\<open>getFirstFrameIndex\<close>, \<^verbatim>\<open>getEventIndex\<close> and \<^verbatim>\<open>createEventIndex\<close>. The two loops
  return from inside; \<^verbatim>\<open>getEventIndex\<close> yields the place \<open>n\<close> of the index it found,
  which stands for the object \<^verbatim>\<open>this.eventIndices_[n]\<close>. A deferred made by
  \<^verbatim>\<open>goog.async.Deferred.succeed\<close> is \<open>Succeeded\<close> with its value.
\<close>

fun getFirstFrameIndex_loop :: "zone_index list \<Rightarrow> frame_index option" where
  "getFirstFrameIndex_loop [] = None"
| "getFirstFrameIndex_loop (z # zs) =
     (let frameIndex = getFrameIndex z
      in if getCount frameIndex \<noteq> 0 then Some frameIndex else getFirstFrameIndex_loop zs)"

definition getFirstFrameIndex :: "database \<Rightarrow> frame_index option" where
  "getFirstFrameIndex d = getFirstFrameIndex_loop (zoneIndices d)"

fun getEventIndex_loop :: "event_index list \<Rightarrow> nat \<Rightarrow> string \<Rightarrow> nat option" where
  "getEventIndex_loop [] n eventName = None"
| "getEventIndex_loop (eventIndex # rest) n eventName =
     (if getEventName eventIndex = eventName then Some n
      else getEventIndex_loop rest (n + 1) eventName)"




subsection \<open>The trace listener\<close>

text \<open>
  Modelled from the spec: the base class \<^verbatim>\<open>wtf.analysis.TraceListener\<close> is not among
  the sources. \<open>eventTable\<close> is its table of event types and
  \<^verbatim>\<open>getEventType(name)\<close> is the lookup by name of section 4.1. The fields
  \<open>zoneCreate\<close> and \<open>scopeLeave\<close> are those of \<^verbatim>\<open>eventTypes_\<close>. An assertion that
  fails is the error \<open>AssertionError\<close>. \<open>MIN_VALUE\<close> and \<open>MAX_VALUE\<close> are
  \<^verbatim>\<open>Number.MIN_VALUE\<close>, the least positive number, and \<^verbatim>\<open>Number.MAX_VALUE\<close>.
\<close>

record listener =
  db :: database
  eventTable :: "(string \<times> event_type) list"
  eventTargets :: "target_ref list"
  insertingEvents :: bool
  insertedEventCount :: nat
  beginningZoneCount :: nat
  dirtyTimeStart :: rat
  dirtyTimeEnd :: rat
  zoneCreate :: "event_type option"
  scopeLeave :: "event_type option"

definition getEventType :: "listener \<Rightarrow> string \<Rightarrow> event_type option" where
  "getEventType l nm = map_of (eventTable l) nm"

definition MIN_VALUE :: rat where
  "MIN_VALUE = 1 / 2 ^ 1074"

definition MAX_VALUE :: rat where
  "MAX_VALUE = (2 ^ 53 - 1) * 2 ^ 971"

definition new_Listener :: "database \<Rightarrow> (string \<times> event_type) list \<Rightarrow> listener" where
  "new_Listener d tbl =
     \<lparr>db = d, eventTable = tbl, eventTargets = [], insertingEvents = False,
      insertedEventCount = 0, beginningZoneCount = 0, dirtyTimeStart = 0, dirtyTimeEnd = 0,
      zoneCreate = None, scopeLeave = None\<rparr>"

definition sourceAdded :: "rat \<Rightarrow> string \<Rightarrow> listener \<Rightarrow> listener" where
  "sourceAdded timebase contextInfo l =
     l\<lparr>db := invalidate (emitEvent SOURCES_CHANGED
             ((db l)\<lparr>sources := sources (db l) @ [contextInfo]\<rparr>))\<rparr>"

definition sourceError :: "string \<Rightarrow> string option \<Rightarrow> listener \<Rightarrow> listener" where
  "sourceError message opt_detail l =
     l\<lparr>db := emitEvent (SOURCE_ERROR message opt_detail) (db l)\<rparr>"

definition beginEventBatch :: "listener \<Rightarrow> js_error + listener" where
  "beginEventBatch l =
     (if insertingEvents l then Inl AssertionError
      else
        let d = db l;
            targets = [SummaryRef] @ map ZoneRef [0..<length (zoneIndices d)]
                        @ map EventIndexRef [0..<length (eventIndices d)]
        in Inr (l\<lparr>insertingEvents := True,
                  beginningZoneCount := length (zoneIndices d),
                  dirtyTimeStart := MAX_VALUE,
                  dirtyTimeEnd := MIN_VALUE,
                  eventTargets := targets,
                  db := fold beginInserting targets d\<rparr>))"

text \<open>\<^verbatim>\<open>renumber_\<close>: the loop over the zone indices, from zone \<open>n\<close> on.\<close>

function renumber_loop :: "nat \<Rightarrow> nat \<Rightarrow> database \<Rightarrow> database" where
  "renumber_loop n p d =
     (if n < length (zoneIndices d) then
        let (z, p') = ZoneIndex_renumber (zoneIndices d ! n) p
        in renumber_loop (n + 1) p'
             (d\<lparr>zoneIndices := (zoneIndices d)[n := z],
                effects := effects d @ [Renumber n p]\<rparr>)
      else d)"
  by pat_completeness auto
termination
  by (relation "measure (\<lambda>(n, p, d). length (zoneIndices d) - n)")
     (auto simp: ZoneIndex_renumber_def)

declare renumber_loop.simps [simp del]

definition renumber :: "database \<Rightarrow> database" where
  "renumber d = (let p = 0; p = p + 1 in renumber_loop 0 p d)"

text \<open>
  The loop of \<^verbatim>\<open>endEventBatch\<close> that ends inserting: \<open>n\<close> runs from the last target
  down to the first.
\<close>

fun endInserting_loop :: "target_ref list \<Rightarrow> nat \<Rightarrow> database \<Rightarrow> database" where
  "endInserting_loop ts 0 d = d"
| "endInserting_loop ts (Suc n) d = endInserting_loop ts n (endInserting (ts ! n) d)"

definition endEventBatch :: "listener \<Rightarrow> js_error + listener" where
  "endEventBatch l =
     (if \<not> insertingEvents l then Inl AssertionError
      else
        let d = endInserting_loop (eventTargets l) (length (eventTargets l)) (db l);
            d = renumber d;
            d = (if beginningZoneCount l \<noteq> length (zoneIndices d)
                 then emitEvent (ZONES_ADDED (drop (beginningZoneCount l) (zoneIndices d))) d
                 else d);
            l = l\<lparr>insertingEvents := False\<rparr>;
            l = (if insertedEventCount l \<noteq> 0
                 then l\<lparr>insertedEventCount := 0, db := invalidate d\<rparr>
                 else l\<lparr>db := d\<rparr>)
        in Inr (l\<lparr>eventTargets := []\<rparr>))"

text \<open>
  \<^verbatim>\<open>traceEvent\<close>, in the order of its statements: the dirty range and the count of
  the batch, the two cached event types, the total count, the zone a
  \<^verbatim>\<open>wtf.zone#create\<close> event creates, and the dispatch to the targets. \<open>INTERNAL\<close> is
  the mask \<^verbatim>\<open>wtf.data.EventFlag.INTERNAL\<close>, whose declaration is not among the
  sources.
\<close>

definition traceEvent_dirty :: "event \<Rightarrow> listener \<Rightarrow> listener" where
  "traceEvent_dirty e l =
     (let l = (if time e < dirtyTimeStart l then l\<lparr>dirtyTimeStart := time e\<rparr> else l);
          l = (if time e > dirtyTimeEnd l then l\<lparr>dirtyTimeEnd := time e\<rparr> else l)
      in l\<lparr>insertedEventCount := insertedEventCount l + 1\<rparr>)"

definition traceEvent_cache :: "listener \<Rightarrow> listener" where
  "traceEvent_cache l =
     (let l = (if scopeLeave l = None
               then l\<lparr>scopeLeave := getEventType l ''wtf.scope#leave''\<rparr> else l);
          l = (if zoneCreate l = None
               then l\<lparr>zoneCreate := getEventType l ''wtf.zone#create''\<rparr> else l)
      in l)"

definition traceEvent_count :: "32 word \<Rightarrow> event \<Rightarrow> listener \<Rightarrow> listener" where
  "traceEvent_count INTERNAL e l =
     (if \<not> (flags (eventType e) AND INTERNAL \<noteq> 0 \<or> Some (eventType e) = scopeLeave l)
      then l\<lparr>db := (db l)\<lparr>totalEventCount := totalEventCount (db l) + 1\<rparr>\<rparr>
      else l)"

fun zone_present :: "zone_index list \<Rightarrow> zone option \<Rightarrow> bool" where
  "zone_present [] newZone = False"
| "zone_present (z # zs) newZone = (if getZone z = newZone then True else zone_present zs newZone)"

definition traceEvent_zone :: "event \<Rightarrow> listener \<Rightarrow> listener" where
  "traceEvent_zone e l =
     (if Some (eventType e) = zoneCreate l then
        let newZone = zone_value e;
            present = zone_present (zoneIndices (db l)) newZone
        in if \<not> present then
             let zoneIndex = new_ZoneIndex newZone;
                 r = ZoneRef (length (zoneIndices (db l)));
                 d = (db l)\<lparr>zoneIndices := zoneIndices (db l) @ [zoneIndex]\<rparr>
             in l\<lparr>eventTargets := eventTargets l @ [r], db := beginInserting r d\<rparr>
           else l
      else l)"

definition traceEvent_dispatch :: "event \<Rightarrow> listener \<Rightarrow> listener" where
  "traceEvent_dispatch e l = l\<lparr>db := fold (insertEvent e) (eventTargets l) (db l)\<rparr>"

definition traceEvent :: "32 word \<Rightarrow> listener \<Rightarrow> event \<Rightarrow> listener" where
  "traceEvent INTERNAL l e =
     traceEvent_dispatch e
       (traceEvent_zone e
         (traceEvent_count INTERNAL e
           (traceEvent_cache
             (traceEvent_dirty e l))))"

text \<open>An ingest sequence: the events handed to \<^verbatim>\<open>traceEvent\<close> one after the other.\<close>

definition ingest :: "32 word \<Rightarrow> listener \<Rightarrow> event list \<Rightarrow> listener" where
  "ingest INTERNAL l es = foldl (traceEvent INTERNAL) l es"

subsection \<open>Queries\<close>

text \<open>
  The text of a query is a list of UTF-16 code units; \<open>ascii\<close> writes one from a string
  of ASCII characters. The line terminators are the four code units that the dot of a
  regular expression does not match.
\<close>

definition ascii :: "string \<Rightarrow> js_string" where
  "ascii s = map of_char s"

definition SLASH :: code_unit where
  "SLASH = 0x2F"

definition LPAREN :: code_unit where
  "LPAREN = 0x28"

definition lineTerminator :: "code_unit \<Rightarrow> bool" where
  "lineTerminator c = (c = 0x0A \<or> c = 0x0D \<or> c = 0x2028 \<or> c = 0x2029)"

text \<open>
  The regular expression of \<^verbatim>\<open>query\<close> needs little of the language: a sequence of
  atoms (a literal character, the dot, a character class), each taken once, one or more
  times or zero or more times, matched against the whole string as \<^verbatim>\<open>^\<close> and \<^verbatim>\<open>$\<close>
  demand. \<open>matches\<close> tries every way to split the string, as the backtracking of
  \<^verbatim>\<open>test\<close> does; the groups of the expression capture and do not change what matches.
  \<open>regex_literal\<close> is \<^verbatim>\<open>/^\/(.+)\/([gim]*)$/\<close>.
\<close>

datatype atom = Lit code_unit | AnyChar | OneOf "code_unit list"

datatype quantified = Once atom | OneOrMore atom | ZeroOrMore atom

fun accepts :: "atom \<Rightarrow> code_unit \<Rightarrow> bool" where
  "accepts (Lit a) c = (c = a)"
| "accepts AnyChar c = (\<not> lineTerminator c)"
| "accepts (OneOf cs) c = (c \<in> set cs)"

fun matches :: "quantified list \<Rightarrow> js_string \<Rightarrow> bool" where
  "matches [] w = (w = [])"
| "matches (Once a # k) [] = False"
| "matches (Once a # k) (c # w) = (accepts a c \<and> matches k w)"
| "matches (OneOrMore a # k) [] = False"
| "matches (OneOrMore a # k) (c # w) = (accepts a c \<and> matches (ZeroOrMore a # k) w)"
| "matches (ZeroOrMore a # k) [] = matches k []"
| "matches (ZeroOrMore a # k) (c # w) =
     (matches k (c # w) \<or> (accepts a c \<and> matches (ZeroOrMore a # k) w))"

definition regex_literal :: "quantified list" where
  "regex_literal =
     [Once (Lit SLASH), OneOrMore AnyChar, Once (Lit SLASH),
      ZeroOrMore (OneOf (ascii ''gim''))]"

text \<open>
  The three branches of the statement that sets \<^verbatim>\<open>isFilter\<close>, named as their comments
  name them; \<^verbatim>\<open>isFilter\<close> is true in the first two. \<open>charAt\<close> yields the empty string
  past the end and \<open>indexOf\<close> yields -1 when the character does not occur.
\<close>

definition charAt :: "js_string \<Rightarrow> nat \<Rightarrow> js_string" where
  "charAt s n = take 1 (drop n s)"

fun indexOf_from :: "js_string \<Rightarrow> code_unit \<Rightarrow> int \<Rightarrow> int" where
  "indexOf_from [] c n = - 1"
| "indexOf_from (x # xs) c n = (if x = c then n else indexOf_from xs c (n + 1))"

definition indexOf :: "js_string \<Rightarrow> code_unit \<Rightarrow> int" where
  "indexOf s c = indexOf_from s c 0"

datatype query_kind = SubstringFilter | RegexFilter | TreeExpression

definition classify :: "js_string \<Rightarrow> query_kind" where
  "classify expr =
     (if charAt expr 0 \<noteq> [SLASH] \<and> indexOf expr LPAREN = - 1 then SubstringFilter
      else if matches regex_literal expr then RegexFilter
      else TreeExpression)"

definition isFilter :: "js_string \<Rightarrow> bool" where
  "isFilter expr =
     (case classify expr of
        SubstringFilter \<Rightarrow> True
      | RegexFilter \<Rightarrow> True
      | TreeExpression \<Rightarrow> False)"

text \<open>
  What \<^verbatim>\<open>query\<close> works with. An evaluator is the predicate of a filter together with
  the text \<^verbatim>\<open>toString()\<close> gives for it; an \<open>event_filter\<close> is a filter after
  \<^verbatim>\<open>setFromString\<close>: whether the parse result was \<^verbatim>\<open>FAILED\<close>, and the evaluator
  (null for a filter that matches everything). A result holds events and scopes;
  \<open>ScopeItem e\<close> is the scope \<^verbatim>\<open>e.scope\<close> of the scope event \<open>e\<close>. The compiled form of
  an XPath expression is the expression object, which is held as the text it was made
  from.

  \<^verbatim>\<open>wtf.analysis.EventFilter\<close>, \<^verbatim>\<open>ZoneIndex.forEach\<close>, \<^verbatim>\<open>wtf.analysis.Event.comparer\<close>
  and the XPath library are not among the sources: they are the fields of
  \<open>collaborators\<close>, and every theorem about \<^verbatim>\<open>query\<close> holds for all of them.
  \<open>forEach c z t1 t2\<close> lists the events the callback receives, in order, and
  \<open>evaluate c source d\<close> compiles \<open>source\<close> and evaluates it with the database \<open>d\<close> as
  the context node. The two readings of the clock are arguments of \<^verbatim>\<open>query\<close>.
\<close>

record evaluator =
  ev_test :: "event \<Rightarrow> bool"
  ev_toString :: string

record event_filter =
  parse_failed :: bool
  getEvaluator :: "evaluator option"

datatype query_item = EventItem event | ScopeItem event

fun item_event :: "query_item \<Rightarrow> event" where
  "item_event (EventItem e) = e"
| "item_event (ScopeItem e) = e"

datatype compiled = CompiledFilter string | CompiledXPath js_string

datatype 'x query_value = FilterResult "query_item list" | XPathResult 'x

record 'x query_result =
  qr_expr :: js_string
  qr_compiledExpr :: compiled
  qr_duration :: rat
  qr_result :: "'x query_value"

record 'x collaborators =
  setFromString :: "js_string \<Rightarrow> event_filter"
  forEach :: "zone_index \<Rightarrow> rat \<Rightarrow> rat \<Rightarrow> event list"
  comparer :: "query_item \<Rightarrow> query_item \<Rightarrow> rat"
  evaluate :: "js_string \<Rightarrow> database \<Rightarrow> js_error + 'x"

text \<open>
  \<^verbatim>\<open>Array.prototype.sort\<close> with a comparison function, as an insertion sort. What is
  proved of it (the result is a permutation, and is ordered when the comparison is
  consistent) holds of every sort the language allows.
\<close>

fun insort_by :: "('a \<Rightarrow> 'a \<Rightarrow> rat) \<Rightarrow> 'a \<Rightarrow> 'a list \<Rightarrow> 'a list" where
  "insort_by cmp x [] = [x]"
| "insort_by cmp x (y # ys) = (if cmp x y \<le> 0 then x # y # ys else y # insort_by cmp x ys)"

definition Array_sort :: "('a \<Rightarrow> 'a \<Rightarrow> rat) \<Rightarrow> 'a list \<Rightarrow> 'a list" where
  "Array_sort cmp xs = foldr (insort_by cmp) xs []"

text \<open>
  \<^verbatim>\<open>query\<close>: \<open>query_callback\<close> is the function handed to \<^verbatim>\<open>forEach\<close>,
  \<open>query_filter\<close> builds and sorts the result of a filter, \<open>query_as_filter\<close> and
  \<open>query_as_xpath\<close> are the two branches. The error \<open>InvalidRegex\<close> is the thrown string
  \<^verbatim>\<open>'Invalid regex.'\<close>; \<open>TypeError\<close> is what the call of \<^verbatim>\<open>toString\<close> on
  \<^verbatim>\<open>filter.getEvaluator()\<close> throws when there is no evaluator.
\<close>

definition query_callback ::
  "32 word \<Rightarrow> evaluator option \<Rightarrow> event \<Rightarrow> query_item list \<Rightarrow> query_item list" where
  "query_callback INTERNAL evaluator e result =
     (if flags (eventType e) AND INTERNAL \<noteq> 0 then result
      else if (case evaluator of None \<Rightarrow> True | Some ev \<Rightarrow> ev_test ev e)
        then (if isScopeEvent e then result @ [ScopeItem e] else result @ [EventItem e])
        else result)"

definition query_filter ::
  "32 word \<Rightarrow> 'x collaborators \<Rightarrow> database \<Rightarrow> evaluator option \<Rightarrow> query_item list" where
  "query_filter INTERNAL c d evaluator =
     Array_sort (comparer c)
       (fold (\<lambda>zoneIndex result.
                fold (query_callback INTERNAL evaluator)
                  (forEach c zoneIndex MIN_VALUE MAX_VALUE) result)
          (zoneIndices d) [])"

definition query_as_filter ::
  "32 word \<Rightarrow> 'x collaborators \<Rightarrow> database \<Rightarrow> js_string \<Rightarrow> rat \<Rightarrow> rat \<Rightarrow>
   js_error + 'x query_result" where
  "query_as_filter INTERNAL c d expr startTime endTime =
     (let filter = setFromString c expr in
      if parse_failed filter then Inl InvalidRegex
      else
        let evaluator = getEvaluator filter;
            result = query_filter INTERNAL c d evaluator
        in case getEvaluator filter of
             None \<Rightarrow> Inl TypeError
           | Some ev \<Rightarrow>
               Inr \<lparr>qr_expr = expr, qr_compiledExpr = CompiledFilter (ev_toString ev),
                    qr_duration = endTime - startTime, qr_result = FilterResult result\<rparr>)"

definition query_as_xpath ::
  "'x collaborators \<Rightarrow> database \<Rightarrow> js_string \<Rightarrow> rat \<Rightarrow> rat \<Rightarrow> js_error + 'x query_result" where
  "query_as_xpath c d expr startTime endTime =
     (let source = (if expr = [] then ascii ''.'' else expr) in
      case evaluate c source d of
        Inl err \<Rightarrow> Inl err
      | Inr v \<Rightarrow>
          Inr \<lparr>qr_expr = expr, qr_compiledExpr = CompiledXPath source,
               qr_duration = endTime - startTime, qr_result = XPathResult v\<rparr>)"

definition query ::
  "32 word \<Rightarrow> 'x collaborators \<Rightarrow> database \<Rightarrow> js_string \<Rightarrow> rat \<Rightarrow> rat \<Rightarrow>
   js_error + 'x query_result" where
  "query INTERNAL c d expr startTime endTime =
     (if isFilter expr then query_as_filter INTERNAL c d expr startTime endTime
      else query_as_xpath c d expr startTime endTime)"

subsection \<open>Flows\<close>

text \<open>
  \<^verbatim>\<open>wtf.analysis.Flow\<close>. The parent flow is held by its id.
\<close>

record flow =
  flowId :: nat
  parentFlow :: "nat option"
  branchEvent :: "event option"
  extendEvents :: "event list"
  terminateEvent :: "event option"
  dataEvents :: "event list option"

definition new_Flow :: "nat \<Rightarrow> nat option \<Rightarrow> flow" where
  "new_Flow fid parent =
     \<lparr>flowId = fid, parentFlow = parent, branchEvent = None, extendEvents = [],
      terminateEvent = None, dataEvents = None\<rparr>"

definition addDataEvent :: "event \<Rightarrow> flow \<Rightarrow> flow" where
  "addDataEvent e f =
     (case dataEvents f of
        None \<Rightarrow> f\<lparr>dataEvents := Some [e]\<rparr>
      | Some es \<Rightarrow> f\<lparr>dataEvents := Some (es @ [e])\<rparr>)"

text \<open>
  \<^verbatim>\<open>getData\<close> reads properties of the plain object \<^verbatim>\<open>e.args\<close> and writes properties
  of the plain object \<^verbatim>\<open>data\<close>, which it creates as \<^verbatim>\<open>{}\<close>. Both inherit from
  \<^verbatim>\<open>Object.prototype\<close>, and the model keeps what the language does there.

  Reading \<^verbatim>\<open>e.args[k]\<close> (\<open>get_arg\<close>) yields the value of the own property \<open>k\<close>. For a
  key the object does not own it yields what \<^verbatim>\<open>Object.prototype\<close> has under that key:
  the prototype of the object for \<^verbatim>\<open>__proto__\<close>, a builtin function for the names in
  \<open>Object_prototype_members\<close>, and undefined for any other key.

  An object is its own properties and its prototype (\<open>js_object\<close>). The assignment
  \<^verbatim>\<open>data[k] = v\<close> (\<open>put\<close>) outside strict mode: under the key \<^verbatim>\<open>__proto__\<close>, as long
  as the lookup of that key reaches the accessor of \<^verbatim>\<open>Object.prototype\<close>
  (\<open>inherits_accessor\<close>), it calls the setter, which makes an object or null the new
  prototype, ignores every other value, and in both cases creates no property. The
  assignment is ignored where the prototype has a property of that name that cannot be
  written, which only a function has (\<open>inherits_readonly\<close>). Every other assignment
  sets the own property \<open>k\<close>.

  \<open>ToString\<close> is the conversion the language applies to the value \<^verbatim>\<open>e.args['name']\<close>
  when it is used as a property key. The three loops of \<^verbatim>\<open>getData\<close> are
  \<open>getData_loop\<close> (over the data events), \<open>getData_event\<close> (its body) and
  \<open>getData_args\<close> (over the schema from \<open>m = 1\<close> on).
\<close>

datatype js_property = Data js_value | ObjectPrototype | Builtin string

definition Object_prototype_members :: "string list" where
  "Object_prototype_members =
     [''constructor'', ''hasOwnProperty'', ''isPrototypeOf'', ''propertyIsEnumerable'',
      ''toLocaleString'', ''toString'', ''valueOf'', ''__defineGetter__'',
      ''__defineSetter__'', ''__lookupGetter__'', ''__lookupSetter__'']"

definition get_arg :: "event \<Rightarrow> string \<Rightarrow> js_property" where
  "get_arg e k =
     (case map_of (args e) k of
        Some v \<Rightarrow> Data v
      | None \<Rightarrow>
          if k = ''__proto__'' then ObjectPrototype
          else if k \<in> set Object_prototype_members then Builtin k
          else Data JUndefined)"

record js_object =
  own :: "string \<rightharpoonup> js_property"
  prototype :: js_property

definition new_Object :: js_object where
  "new_Object = \<lparr>own = Map.empty, prototype = ObjectPrototype\<rparr>"

fun isObject :: "js_property \<Rightarrow> bool" where
  "isObject (Data (JObject ps)) = True"
| "isObject (Data v) = False"
| "isObject ObjectPrototype = True"
| "isObject (Builtin k) = True"

fun has_accessor :: "js_property \<Rightarrow> bool" where
  "has_accessor (Data (JObject ps)) = (map_of ps ''__proto__'' = None)"
| "has_accessor (Data v) = False"
| "has_accessor ObjectPrototype = True"
| "has_accessor (Builtin k) = True"

definition inherits_accessor :: "js_object \<Rightarrow> bool" where
  "inherits_accessor d = (own d ''__proto__'' = None \<and> has_accessor (prototype d))"

fun readonly :: "js_property \<Rightarrow> string list" where
  "readonly (Builtin k) =
     (if k = ''constructor'' then [''length'', ''name'', ''prototype'']
      else [''length'', ''name''])"
| "readonly p = []"

definition inherits_readonly :: "js_object \<Rightarrow> string \<Rightarrow> bool" where
  "inherits_readonly d k = (own d k = None \<and> k \<in> set (readonly (prototype d)))"

definition put :: "string \<Rightarrow> js_property \<Rightarrow> js_object \<Rightarrow> js_object" where
  "put k v d =
     (if k = ''__proto__'' \<and> inherits_accessor d
      then (if isObject v \<or> v = Data JNull then d\<lparr>prototype := v\<rparr> else d)
      else if inherits_readonly d k then d
      else d\<lparr>own := (own d)(k \<mapsto> v)\<rparr>)"

fun getData_args :: "arg list \<Rightarrow> event \<Rightarrow> js_object \<Rightarrow> js_object" where
  "getData_args [] e data = data"
| "getData_args (a # rest) e data =
     getData_args rest e (put (arg_name a) (get_arg e (arg_name a)) data)"

definition getData_event ::
  "(js_property \<Rightarrow> string) \<Rightarrow> 32 word \<Rightarrow> event \<Rightarrow> js_object \<Rightarrow> js_object" where
  "getData_event ToString INTERNAL e data =
     (if flags (eventType e) AND INTERNAL \<noteq> 0
      then put (ToString (get_arg e ''name'')) (get_arg e ''value'') data
      else getData_args (drop 1 (type_args (eventType e))) e data)"

fun getData_loop ::
  "(js_property \<Rightarrow> string) \<Rightarrow> 32 word \<Rightarrow> event list \<Rightarrow> js_object \<Rightarrow> js_object" where
  "getData_loop ToString INTERNAL [] data = data"
| "getData_loop ToString INTERNAL (e # es) data =
     getData_loop ToString INTERNAL es (getData_event ToString INTERNAL e data)"

definition getData :: "(js_property \<Rightarrow> string) \<Rightarrow> 32 word \<Rightarrow> flow \<Rightarrow> js_object" where
  "getData ToString INTERNAL f =
     (case dataEvents f of
        None \<Rightarrow> new_Object
      | Some es \<Rightarrow> getData_loop ToString INTERNAL es new_Object)"

section \<open>The properties, as the specification words them\<close>

subsection \<open>What the total event count is compared with\<close>

text \<open>
  The specification's side of the count: an event is left out of the total when its type
  has the \<^verbatim>\<open>INTERNAL\<close> flag or is named \<^verbatim>\<open>wtf.scope#leave\<close>. The code compares the
  type of the event with the cached type object, so the two agree where the table of the
  listener holds each type under its own name (\<open>table_by_name\<close>), the type of the event
  is the object the table holds (\<open>registered\<close>), and the cache is empty or was filled
  from the table (\<open>cache_ok\<close>).
\<close>

definition excluded :: "32 word \<Rightarrow> event \<Rightarrow> bool" where
  "excluded INTERNAL e =
     (flags (eventType e) AND INTERNAL \<noteq> 0 \<or> name (eventType e) = ''wtf.scope#leave'')"

definition table_by_name :: "listener \<Rightarrow> bool" where
  "table_by_name l = (\<forall>(nm, t) \<in> set (eventTable l). name t = nm)"

definition registered :: "listener \<Rightarrow> event \<Rightarrow> bool" where
  "registered l e = (getEventType l (name (eventType e)) = Some (eventType e))"

definition cache_ok :: "listener \<Rightarrow> bool" where
  "cache_ok l = (scopeLeave l = None \<or> scopeLeave l = getEventType l ''wtf.scope#leave'')"

subsection \<open>What the listener's batches are compared with\<close>

text \<open>
  \<open>zone_cache_ok\<close> is \<open>cache_ok\<close> for the cached \<^verbatim>\<open>wtf.zone#create\<close> type.
  \<open>renumber_starts p zs\<close> lists the positions at which the zones \<open>zs\<close> start when
  numbering begins at \<open>p\<close> and every zone takes as many positions as it has events;
  \<open>renumber_zones\<close> is the zone list after such a pass. \<open>all_positions\<close> reads the
  positions of all events, zone after zone, and \<open>event_count\<close> counts the events.
\<close>

definition zone_cache_ok :: "listener \<Rightarrow> bool" where
  "zone_cache_ok l = (zoneCreate l = None \<or> zoneCreate l = getEventType l ''wtf.zone#create'')"

fun renumber_starts :: "nat \<Rightarrow> zone_index list \<Rightarrow> nat list" where
  "renumber_starts p [] = []"
| "renumber_starts p (z # zs) = p # renumber_starts (p + length (zi_events z)) zs"

fun renumber_zones :: "nat \<Rightarrow> zone_index list \<Rightarrow> zone_index list" where
  "renumber_zones p [] = []"
| "renumber_zones p (z # zs) =
     z\<lparr>zi_events := renumber_events p (zi_events z)\<rparr> # renumber_zones (p + length (zi_events z)) zs"

definition all_positions :: "database \<Rightarrow> nat list" where
  "all_positions d = concat (map (\<lambda>z. map position (zi_events z)) (zoneIndices d))"

definition event_count :: "database \<Rightarrow> nat" where
  "event_count d = sum_list (map (\<lambda>z. length (zi_events z)) (zoneIndices d))"

subsection \<open>What the result of a filter query is compared with\<close>

text \<open>
  The specification's side of a filter query: the item an event becomes, the events a
  filter lets pass (not internal, and accepted by the evaluator if there is one), the
  events the zone indices hand over, and what makes a comparison function consistent
  (total and transitive).
\<close>

definition to_item :: "event \<Rightarrow> query_item" where
  "to_item e = (if isScopeEvent e then ScopeItem e else EventItem e)"

definition passes :: "32 word \<Rightarrow> evaluator option \<Rightarrow> event \<Rightarrow> bool" where
  "passes INTERNAL evaluator e =
     (flags (eventType e) AND INTERNAL = 0 \<and>
      (case evaluator of None \<Rightarrow> True | Some ev \<Rightarrow> ev_test ev e))"

definition visited :: "'x collaborators \<Rightarrow> database \<Rightarrow> event list" where
  "visited c d = concat (map (\<lambda>z. forEach c z MIN_VALUE MAX_VALUE) (zoneIndices d))"

definition consistent :: "('a \<Rightarrow> 'a \<Rightarrow> rat) \<Rightarrow> bool" where
  "consistent cmp =
     ((\<forall>a b. cmp a b \<le> 0 \<or> cmp b a \<le> 0) \<and>
      (\<forall>a b c. cmp a b \<le> 0 \<and> cmp b c \<le> 0 \<longrightarrow> cmp a c \<le> 0))"

text \<open>
  Modelled from the spec: \<^verbatim>\<open>wtf.analysis.Event.comparer\<close> is not among the sources; it
  is "the database event comparator (time asc, position asc)" of section 4.8, which
  reads the time and the position of a scope from its enter event.
\<close>

definition by_time_position :: "query_item \<Rightarrow> query_item \<Rightarrow> rat" where
  "by_time_position a b =
     (if time (item_event a) = time (item_event b)
      then of_nat (position (item_event a)) - of_nat (position (item_event b))
      else time (item_event a) - time (item_event b))"

subsection \<open>What the data of a flow is compared with\<close>

text \<open>
  The specification's side: the pairs one data event contributes (the pair of its
  \<^verbatim>\<open>name\<close> and \<^verbatim>\<open>value\<close> arguments for an event with the \<^verbatim>\<open>INTERNAL\<close> flag, one pair
  for each schema argument but the first otherwise), the merge of pairs into a map, in
  which a later pair overrides an earlier one, the left fold of the merges over a list
  of data events, and whether an event sets a key.
\<close>

definition event_pairs ::
  "(js_property \<Rightarrow> string) \<Rightarrow> 32 word \<Rightarrow> event \<Rightarrow> (string \<times> js_property) list" where
  "event_pairs ToString INTERNAL e =
     (if flags (eventType e) AND INTERNAL \<noteq> 0
      then [(ToString (get_arg e ''name''), get_arg e ''value'')]
      else map (\<lambda>a. (arg_name a, get_arg e (arg_name a))) (tl (type_args (eventType e))))"

definition merge ::
  "(string \<rightharpoonup> js_property) \<Rightarrow> (string \<times> js_property) list \<Rightarrow> (string \<rightharpoonup> js_property)" where
  "merge data kvs = data ++ map_of (rev kvs)"

definition merged ::
  "(js_property \<Rightarrow> string) \<Rightarrow> 32 word \<Rightarrow> event list \<Rightarrow> (string \<rightharpoonup> js_property)" where
  "merged ToString INTERNAL es =
     foldl (\<lambda>data e. merge data (event_pairs ToString INTERNAL e)) Map.empty es"

definition sets_key :: "(js_property \<Rightarrow> string) \<Rightarrow> 32 word \<Rightarrow> string \<Rightarrow> event \<Rightarrow> bool" where
  "sets_key ToString INTERNAL k e = (k \<in> fst ` set (event_pairs ToString INTERNAL e))"

section \<open>Examples\<close>

subsection \<open>Seed scenario S1 of the specification\<close>

text \<open>
  One zone, two nested scopes: \<^verbatim>\<open>zone#create(Z)\<close>, \<^verbatim>\<open>scope#enter(A) @10\<close>,
  \<^verbatim>\<open>scope#enter(B) @20\<close>, \<^verbatim>\<open>scope#leave @30\<close>, \<^verbatim>\<open>scope#leave @50\<close>, with the
  \<^verbatim>\<open>INTERNAL\<close> flag at bit 3.
\<close>

definition S1_INTERNAL :: "32 word" where
  "S1_INTERNAL = 8"

definition S1_zoneCreate :: event_type where
  "S1_zoneCreate = \<lparr>type_id = 1, name = ''wtf.zone#create'', flags = 8, type_args = []\<rparr>"

definition S1_scopeEnter :: event_type where
  "S1_scopeEnter = \<lparr>type_id = 2, name = ''wtf.scope#enter'', flags = 0, type_args = []\<rparr>"

definition S1_scopeLeave :: event_type where
  "S1_scopeLeave = \<lparr>type_id = 3, name = ''wtf.scope#leave'', flags = 0, type_args = []\<rparr>"

definition S1_table :: "(string \<times> event_type) list" where
  "S1_table =
     [(''wtf.zone#create'', S1_zoneCreate), (''wtf.scope#enter'', S1_scopeEnter),
      (''wtf.scope#leave'', S1_scopeLeave)]"

definition S1_Z :: zone where
  "S1_Z = \<lparr>zone_id = 1, zone_name = ''Z'', zone_type = ''script'', zone_location = ''loc''\<rparr>"

definition S1_event :: "event_type \<Rightarrow> rat \<Rightarrow> bool \<Rightarrow> event" where
  "S1_event t tm sc =
     \<lparr>eventType = t, zone = Some S1_Z, time = tm, args = [], position = 0,
      zone_value = (if t = S1_zoneCreate then Some S1_Z else None), isScopeEvent = sc\<rparr>"

definition S1_events :: "event list" where
  "S1_events =
     [S1_event S1_zoneCreate 0 False, S1_event S1_scopeEnter 10 True,
      S1_event S1_scopeEnter 20 True, S1_event S1_scopeLeave 30 False,
      S1_event S1_scopeLeave 50 False]"

definition S1_listener :: listener where
  "S1_listener = new_Listener new_EventDatabase S1_table"

subsection \<open>Listeners inside a batch\<close>

text \<open>
  Scenario S1 once its batch has begun, and its first event. \<open>R_listener\<close> is a listener
  inside a batch whose database holds two zones with stale positions: the first zone
  received its two events out of order.
\<close>

definition S1_started :: listener where
  "S1_started = (case beginEventBatch S1_listener of Inr l \<Rightarrow> l | Inl err \<Rightarrow> S1_listener)"

definition S1_create :: event where
  "S1_create = S1_event S1_zoneCreate 0 False"

definition R_event :: "rat \<Rightarrow> nat \<Rightarrow> event" where
  "R_event tm p =
     \<lparr>eventType = S1_scopeEnter, zone = Some S1_Z, time = tm, args = [], position = p,
      zone_value = None, isScopeEvent = True\<rparr>"

definition R_zone :: "event list \<Rightarrow> zone_index" where
  "R_zone es =
     \<lparr>zi_zone = Some S1_Z, zi_events = es, zi_inserting = True, zi_frameIndex = \<lparr>frames = []\<rparr>\<rparr>"

definition R_listener :: listener where
  "R_listener =
     (new_Listener
        (new_EventDatabase
           \<lparr>zoneIndices := [R_zone [R_event 20 7, R_event 10 7], R_zone [R_event 5 0]]\<rparr>)
        S1_table)
     \<lparr>insertingEvents := True, eventTargets := [SummaryRef, ZoneRef 0, ZoneRef 1]\<rparr>"

subsection \<open>Databases with indices\<close>


definition F_zone :: "event list \<Rightarrow> zone_index" where
  "F_zone fs =
     \<lparr>zi_zone = Some S1_Z, zi_events = [], zi_inserting = False, zi_frameIndex = \<lparr>frames = fs\<rparr>\<rparr>"

definition F_db :: database where
  "F_db = new_EventDatabase
     \<lparr>zoneIndices := [F_zone [], F_zone [R_event 1 1, R_event 2 2], F_zone [R_event 3 3]]\<rparr>"

subsection \<open>A database to query\<close>

text \<open>
  A database of two zones, a filter that has no evaluator for the empty
  string and one that accepts scope enters for any other, zone indices that hand over
  the events whose time lies in the range, and an XPath library that fails.
  \<open>T_collaborators\<close> has an XPath library that knows one expression, \<^verbatim>\<open>//zone\<close>, for
  which it counts the zones of the database it is given.
\<close>

definition Q_evaluator :: evaluator where
  "Q_evaluator =
     \<lparr>ev_test = (\<lambda>e. name (eventType e) = ''wtf.scope#enter''),
      ev_toString = ''function (e) { return isScopeEnter(e); }''\<rparr>"

definition Q_collaborators :: "unit collaborators" where
  "Q_collaborators =
     \<lparr>setFromString =
        (\<lambda>expr. \<lparr>parse_failed = False,
                  getEvaluator = (if expr = [] then None else Some Q_evaluator)\<rparr>),
      forEach = (\<lambda>z t1 t2. filter (\<lambda>e. t1 \<le> time e \<and> time e \<le> t2) (zi_events z)),
      comparer = by_time_position,
      evaluate = (\<lambda>source d. Inl XPathError)\<rparr>"

definition T_collaborators :: "nat collaborators" where
  "T_collaborators =
     \<lparr>setFromString = setFromString Q_collaborators,
      forEach = forEach Q_collaborators,
      comparer = by_time_position,
      evaluate = (\<lambda>source d. if source = ascii ''//zone'' then Inr (length (zoneIndices d))
                                else Inl XPathError)\<rparr>"

definition Q_event :: "event_type \<Rightarrow> rat \<Rightarrow> nat \<Rightarrow> bool \<Rightarrow> event" where
  "Q_event t tm p sc = (S1_event t tm sc)\<lparr>position := p\<rparr>"

definition Q_db :: database where
  "Q_db = new_EventDatabase
     \<lparr>zoneIndices :=
        [R_zone [Q_event S1_zoneCreate 1 1 False, Q_event S1_scopeEnter 10 2 True,
                 Q_event S1_scopeLeave 30 3 False],
         R_zone [Q_event S1_scopeEnter 5 4 True]]\<rparr>"

subsection \<open>Flows with data\<close>

text \<open>
  \<open>G_flow\<close> has two data events: a builtin appender that sets \<open>a\<close> to 1, then a
  custom appender whose schema is \<open>flowId, a, b\<close>. \<open>P_flow\<close> has one data event, a
  builtin appender that sets \<^verbatim>\<open>__proto__\<close> to 1. \<open>G_key\<close> takes a string as its own
  key, as the conversion of the language does.
\<close>

definition G_key :: "js_property \<Rightarrow> string" where
  "G_key v = (case v of Data (JString s) \<Rightarrow> s | _ \<Rightarrow> ''undefined'')"

definition G_appendData :: event_type where
  "G_appendData =
     \<lparr>type_id = 10, name = ''wtf.flow#appendData'', flags = 8,
      type_args = [\<lparr>arg_name = ''id'', arg_typeName = ''flowId''\<rparr>,
                   \<lparr>arg_name = ''name'', arg_typeName = ''utf8''\<rparr>,
                   \<lparr>arg_name = ''value'', arg_typeName = ''any''\<rparr>]\<rparr>"

definition G_builtin :: event where
  "G_builtin =
     \<lparr>eventType = G_appendData, zone = Some S1_Z, time = 1,
      args = [(''id'', JNumber 7), (''name'', JString ''a''), (''value'', JNumber 1)],
      position = 0, zone_value = None, isScopeEvent = False\<rparr>"

definition G_custom :: event where
  "G_custom =
     \<lparr>eventType = \<lparr>type_id = 11, name = ''my.flow#data'', flags = 0,
        type_args = [\<lparr>arg_name = ''flowId'', arg_typeName = ''flowId''\<rparr>,
                     \<lparr>arg_name = ''a'', arg_typeName = ''uint32''\<rparr>,
                     \<lparr>arg_name = ''b'', arg_typeName = ''uint32''\<rparr>]\<rparr>,
      zone = Some S1_Z, time = 2,
      args = [(''flowId'', JNumber 7), (''a'', JNumber 2), (''b'', JNumber 3)],
      position = 0, zone_value = None, isScopeEvent = False\<rparr>"

definition G_flow :: flow where
  "G_flow = fold addDataEvent [G_builtin, G_custom] (new_Flow 7 None)"

definition P_event :: event where
  "P_event =
     \<lparr>eventType = G_appendData, zone = Some S1_Z, time = 1,
      args = [(''id'', JNumber 7), (''name'', JString ''__proto__''), (''value'', JNumber 1)],
      position = 0, zone_value = None, isScopeEvent = False\<rparr>"

definition P_flow :: flow where
  "P_flow = addDataEvent P_event (new_Flow 7 None)"

section \<open>The total event count\<close>

lemma totalEventCount_on_target [simp]:
  "totalEventCount (on_target r fs fz fi d) = totalEventCount d"
  by (simp add: on_target_def split: target_ref.split)

lemma totalEventCount_insertEvent [simp]:
  "totalEventCount (insertEvent e r d) = totalEventCount d"
  by (simp add: insertEvent_def)

lemma totalEventCount_beginInserting [simp]:
  "totalEventCount (beginInserting r d) = totalEventCount d"
  by (simp add: beginInserting_def)

lemma totalEventCount_fold_insertEvent [simp]:
  "totalEventCount (fold (insertEvent e) ts d) = totalEventCount d"
  by (induction ts arbitrary: d) simp_all

lemma dirty_fields [simp]:
  "eventTable (traceEvent_dirty e l) = eventTable l"
  "scopeLeave (traceEvent_dirty e l) = scopeLeave l"
  "zoneCreate (traceEvent_dirty e l) = zoneCreate l"
  "db (traceEvent_dirty e l) = db l"
  "eventTargets (traceEvent_dirty e l) = eventTargets l"
  "insertedEventCount (traceEvent_dirty e l) = insertedEventCount l + 1"
  "beginningZoneCount (traceEvent_dirty e l) = beginningZoneCount l"
  "insertingEvents (traceEvent_dirty e l) = insertingEvents l"
  by (simp_all add: traceEvent_dirty_def Let_def)

lemma cache_fields [simp]:
  "eventTable (traceEvent_cache l) = eventTable l"
  "scopeLeave (traceEvent_cache l) =
     (if scopeLeave l = None then getEventType l ''wtf.scope#leave'' else scopeLeave l)"
  "zoneCreate (traceEvent_cache l) =
     (if zoneCreate l = None then getEventType l ''wtf.zone#create'' else zoneCreate l)"
  "db (traceEvent_cache l) = db l"
  "eventTargets (traceEvent_cache l) = eventTargets l"
  "insertedEventCount (traceEvent_cache l) = insertedEventCount l"
  "beginningZoneCount (traceEvent_cache l) = beginningZoneCount l"
  "insertingEvents (traceEvent_cache l) = insertingEvents l"
  by (auto simp: traceEvent_cache_def Let_def getEventType_def)

lemma count_fields [simp]:
  "eventTable (traceEvent_count I e l) = eventTable l"
  "scopeLeave (traceEvent_count I e l) = scopeLeave l"
  "zoneCreate (traceEvent_count I e l) = zoneCreate l"
  "eventTargets (traceEvent_count I e l) = eventTargets l"
  "insertedEventCount (traceEvent_count I e l) = insertedEventCount l"
  "beginningZoneCount (traceEvent_count I e l) = beginningZoneCount l"
  "insertingEvents (traceEvent_count I e l) = insertingEvents l"
  "zoneIndices (db (traceEvent_count I e l)) = zoneIndices (db l)"
  "eventIndices (db (traceEvent_count I e l)) = eventIndices (db l)"
  "summaryIndex (db (traceEvent_count I e l)) = summaryIndex (db l)"
  "effects (db (traceEvent_count I e l)) = effects (db l)"
  by (simp_all add: traceEvent_count_def)

lemma count_totalEventCount:
  "totalEventCount (db (traceEvent_count I e l)) =
     totalEventCount (db l) +
       (if flags (eventType e) AND I \<noteq> 0 \<or> Some (eventType e) = scopeLeave l then 0 else 1)"
  by (simp add: traceEvent_count_def)

lemma zone_fields [simp]:
  "eventTable (traceEvent_zone e l) = eventTable l"
  "scopeLeave (traceEvent_zone e l) = scopeLeave l"
  "zoneCreate (traceEvent_zone e l) = zoneCreate l"
  "insertedEventCount (traceEvent_zone e l) = insertedEventCount l"
  "beginningZoneCount (traceEvent_zone e l) = beginningZoneCount l"
  "insertingEvents (traceEvent_zone e l) = insertingEvents l"
  "totalEventCount (db (traceEvent_zone e l)) = totalEventCount (db l)"
  by (simp_all add: traceEvent_zone_def Let_def)

lemma dispatch_fields [simp]:
  "eventTable (traceEvent_dispatch e l) = eventTable l"
  "scopeLeave (traceEvent_dispatch e l) = scopeLeave l"
  "zoneCreate (traceEvent_dispatch e l) = zoneCreate l"
  "eventTargets (traceEvent_dispatch e l) = eventTargets l"
  "insertedEventCount (traceEvent_dispatch e l) = insertedEventCount l"
  "beginningZoneCount (traceEvent_dispatch e l) = beginningZoneCount l"
  "insertingEvents (traceEvent_dispatch e l) = insertingEvents l"
  "totalEventCount (db (traceEvent_dispatch e l)) = totalEventCount (db l)"
  by (simp_all add: traceEvent_dispatch_def)

lemma eventTable_traceEvent [simp]: "eventTable (traceEvent I l e) = eventTable l"
  by (simp add: traceEvent_def)

lemma scopeLeave_traceEvent:
  "scopeLeave (traceEvent I l e) =
     (if scopeLeave l = None then getEventType l ''wtf.scope#leave'' else scopeLeave l)"
  by (simp add: traceEvent_def getEventType_def)

lemma totalEventCount_traceEvent:
  "totalEventCount (db (traceEvent I l e)) =
     totalEventCount (db l) +
       (if flags (eventType e) AND I \<noteq> 0 \<or> Some (eventType e) = scopeLeave (traceEvent I l e)
        then 0 else 1)"
  by (simp add: traceEvent_def count_totalEventCount getEventType_def)

lemma getEventType_name:
  "table_by_name l \<Longrightarrow> getEventType l nm = Some t \<Longrightarrow> name t = nm"
  by (auto simp: table_by_name_def getEventType_def dest: map_of_SomeD)

lemma cache_ok_traceEvent: "cache_ok l \<Longrightarrow> cache_ok (traceEvent I l e)"
  by (auto simp: cache_ok_def scopeLeave_traceEvent getEventType_def)

lemma table_by_name_traceEvent [simp]: "table_by_name (traceEvent I l e) = table_by_name l"
  by (simp add: table_by_name_def)

lemma registered_traceEvent [simp]: "registered (traceEvent I l e) e' = registered l e'"
  by (simp add: registered_def getEventType_def)

lemma traceEvent_step:
  assumes "table_by_name l" "cache_ok l" "registered l e"
  shows "totalEventCount (db (traceEvent I l e)) =
     totalEventCount (db l) + (if excluded I e then 0 else 1)"
proof -
  have cached: "scopeLeave (traceEvent I l e) = getEventType l ''wtf.scope#leave''"
    using assms(2) by (auto simp: scopeLeave_traceEvent cache_ok_def)
  have "(getEventType l ''wtf.scope#leave'' = Some (eventType e)) =
        (name (eventType e) = ''wtf.scope#leave'')"
  proof
    assume "getEventType l ''wtf.scope#leave'' = Some (eventType e)"
    then show "name (eventType e) = ''wtf.scope#leave''"
      using assms(1) by (rule getEventType_name [rotated])
  next
    assume "name (eventType e) = ''wtf.scope#leave''"
    then show "getEventType l ''wtf.scope#leave'' = Some (eventType e)"
      using assms(3) by (simp add: registered_def)
  qed
  then have "(Some (eventType e) = scopeLeave (traceEvent I l e)) =
        (name (eventType e) = ''wtf.scope#leave'')"
    unfolding cached by (simp add: eq_commute)
  then show ?thesis
    by (simp add: totalEventCount_traceEvent excluded_def)
qed

lemma ingest_count:
  assumes "table_by_name l" "cache_ok l" "\<forall>e \<in> set es. registered l e"
  shows "totalEventCount (db (ingest I l es)) =
     totalEventCount (db l) + length (filter (\<lambda>e. \<not> excluded I e) es)"
  using assms
proof (induction es arbitrary: l)
  case Nil
  then show ?case by (simp add: ingest_def)
next
  case (Cons e es)
  have "totalEventCount (db (ingest I (traceEvent I l e) es)) =
     totalEventCount (db (traceEvent I l e)) + length (filter (\<lambda>e. \<not> excluded I e) es)"
    using Cons.prems by (intro Cons.IH) (simp_all add: cache_ok_traceEvent)
  then show ?case
    using Cons.prems by (simp add: ingest_def traceEvent_step)
qed

text \<open>
  C1. Each event handed to \<^verbatim>\<open>traceEvent\<close> adds exactly one to the total event count,
  unless its type has the \<^verbatim>\<open>INTERNAL\<close> flag or is \<^verbatim>\<open>wtf.scope#leave\<close>, in which case
  the count stays; so after an ingest sequence the count has grown by the number of
  events less those that are internal or scope leaves.
\<close>

theorem totalEventCount_ingest:
  assumes "table_by_name l" and "cache_ok l" and "\<forall>e \<in> set es. registered l e"
  shows "(\<forall>e \<in> set es. getTotalEventCount (db (traceEvent I l e)) =
            getTotalEventCount (db l) + (if excluded I e then 0 else 1)) \<and>
         getTotalEventCount (db (ingest I l es)) =
           getTotalEventCount (db l) + (length es - length (filter (excluded I) es))"
proof -
  have "length (filter (\<lambda>e. \<not> excluded I e) es) = length es - length (filter (excluded I) es)"
    using sum_length_filter_compl [of "excluded I" es] by simp
  then show ?thesis
    using assms by (simp add: getTotalEventCount_def traceEvent_step ingest_count)
qed

theorem totalEventCount_ingest_witness:
  "getTotalEventCount (db (ingest S1_INTERNAL S1_listener S1_events)) = 2"
proof -
  have tbl: "table_by_name S1_listener"
    by (simp add: table_by_name_def S1_listener_def new_Listener_def S1_table_def
        S1_zoneCreate_def S1_scopeEnter_def S1_scopeLeave_def)
  have cache: "cache_ok S1_listener"
    by (simp add: cache_ok_def S1_listener_def new_Listener_def)
  have reg: "\<forall>e \<in> set S1_events. registered S1_listener e"
    by (simp add: registered_def getEventType_def S1_listener_def new_Listener_def S1_table_def
        S1_events_def S1_event_def S1_zoneCreate_def S1_scopeEnter_def S1_scopeLeave_def)
  have "length S1_events - length (filter (excluded S1_INTERNAL) S1_events) = 2"
    by (simp add: excluded_def S1_INTERNAL_def S1_events_def S1_event_def
        S1_zoneCreate_def S1_scopeEnter_def S1_scopeLeave_def)
  moreover have "getTotalEventCount (db S1_listener) = 0"
    by (simp add: getTotalEventCount_def S1_listener_def new_Listener_def new_EventDatabase_def)
  ultimately show ?thesis
    using totalEventCount_ingest [OF tbl cache reg, of S1_INTERNAL] by simp
qed

section \<open>The trace listener: zones, batches and positions\<close>

lemma map_update_same:
  "f (g (xs ! n)) = f (xs ! n) \<Longrightarrow> map f (xs[n := g (xs ! n)]) = map f xs"
  by (metis list_update_id map_update)

lemma effects_on_target [simp]: "effects (on_target r fs fz fi d) = effects d"
  by (simp add: on_target_def split: target_ref.split)

lemma length_zoneIndices_on_target [simp]:
  "length (zoneIndices (on_target r fs fz fi d)) = length (zoneIndices d)"
  by (simp add: on_target_def split: target_ref.split)

lemma length_eventIndices_on_target [simp]:
  "length (eventIndices (on_target r fs fz fi d)) = length (eventIndices d)"
  by (simp add: on_target_def split: target_ref.split)

lemma map_zoneIndices_on_target:
  "(\<And>z. f (fz z) = f z) \<Longrightarrow>
   map f (zoneIndices (on_target r fs fz fi d)) = map f (zoneIndices d)"
  by (simp add: on_target_def map_update_same split: target_ref.split)

lemma effects_insertEvent [simp]:
  "effects (insertEvent e r d) = effects d @ [InsertEvent r e]"
  by (simp add: insertEvent_def)

lemma effects_beginInserting [simp]:
  "effects (beginInserting r d) = effects d @ [BeginInserting r]"
  by (simp add: beginInserting_def)

lemma effects_endInserting [simp]:
  "effects (endInserting r d) = effects d @ [EndInserting r]"
  by (simp add: endInserting_def)

lemma length_zoneIndices_insertEvent [simp]:
  "length (zoneIndices (insertEvent e r d)) = length (zoneIndices d)"
  by (simp add: insertEvent_def)

lemma length_zoneIndices_beginInserting [simp]:
  "length (zoneIndices (beginInserting r d)) = length (zoneIndices d)"
  by (simp add: beginInserting_def)

lemma length_zoneIndices_endInserting [simp]:
  "length (zoneIndices (endInserting r d)) = length (zoneIndices d)"
  by (simp add: endInserting_def)

lemma getZone_insertEvent [simp]:
  "map getZone (zoneIndices (insertEvent e r d)) = map getZone (zoneIndices d)"
  by (simp add: insertEvent_def map_zoneIndices_on_target getZone_def ZoneIndex_insertEvent_def)

lemma getZone_beginInserting [simp]:
  "map getZone (zoneIndices (beginInserting r d)) = map getZone (zoneIndices d)"
  by (simp add: beginInserting_def map_zoneIndices_on_target getZone_def ZoneIndex_beginInserting_def)

lemma inserting_insertEvent [simp]:
  "map zi_inserting (zoneIndices (insertEvent e r d)) = map zi_inserting (zoneIndices d)"
  by (simp add: insertEvent_def map_zoneIndices_on_target ZoneIndex_insertEvent_def)

lemma effects_fold_insertEvent [simp]:
  "effects (fold (insertEvent e) ts d) = effects d @ map (\<lambda>r. InsertEvent r e) ts"
  by (induction ts arbitrary: d) simp_all

lemma length_zoneIndices_fold_insertEvent [simp]:
  "length (zoneIndices (fold (insertEvent e) ts d)) = length (zoneIndices d)"
  by (induction ts arbitrary: d) simp_all

lemma getZone_fold_insertEvent [simp]:
  "map getZone (zoneIndices (fold (insertEvent e) ts d)) = map getZone (zoneIndices d)"
  by (induction ts arbitrary: d) simp_all

lemma inserting_fold_insertEvent [simp]:
  "map zi_inserting (zoneIndices (fold (insertEvent e) ts d)) = map zi_inserting (zoneIndices d)"
  by (induction ts arbitrary: d) simp_all

lemma zone_present_iff: "zone_present zs z = (z \<in> set (map getZone zs))"
  by (induction zs) auto

text \<open>The zone step of traceEvent, by cases.\<close>

lemma traceEvent_zone_new:
  assumes "Some (eventType e) = zoneCreate l"
    and "\<not> zone_present (zoneIndices (db l)) (zone_value e)"
  shows "eventTargets (traceEvent_zone e l) =
           eventTargets l @ [ZoneRef (length (zoneIndices (db l)))]"
    and "effects (db (traceEvent_zone e l)) =
           effects (db l) @ [BeginInserting (ZoneRef (length (zoneIndices (db l))))]"
    and "zoneIndices (db (traceEvent_zone e l)) =
           zoneIndices (db l) @ [ZoneIndex_beginInserting (new_ZoneIndex (zone_value e))]"
  using assms
  by (simp_all add: traceEvent_zone_def Let_def beginInserting_def on_target_def)

lemma traceEvent_zone_old:
  assumes "Some (eventType e) \<noteq> zoneCreate l \<or> zone_present (zoneIndices (db l)) (zone_value e)"
  shows "traceEvent_zone e l = l"
  using assms by (auto simp: traceEvent_zone_def Let_def)

lemma renumber_loop_unfold:
  "n < length (zoneIndices d) \<Longrightarrow>
   renumber_loop n p d =
     renumber_loop (Suc n) (p + length (zi_events (zoneIndices d ! n)))
       (d\<lparr>zoneIndices := (zoneIndices d)
             [n := (zoneIndices d ! n)\<lparr>zi_events := renumber_events p (zi_events (zoneIndices d ! n))\<rparr>],
          effects := effects d @ [Renumber n p]\<rparr>)"
  by (subst renumber_loop.simps) (simp add: ZoneIndex_renumber_def)

lemma renumber_loop_done:
  "\<not> n < length (zoneIndices d) \<Longrightarrow> renumber_loop n p d = d"
  by (subst renumber_loop.simps) simp

lemma renumber_loop_zones:
  "n \<le> length (zoneIndices d) \<Longrightarrow>
   zoneIndices (renumber_loop n p d) =
     take n (zoneIndices d) @ renumber_zones p (drop n (zoneIndices d))"
proof (induction n p d rule: renumber_loop.induct)
  case (1 n p d)
  show ?case
  proof (cases "n < length (zoneIndices d)")
    case True
    let ?z = "(zoneIndices d ! n)\<lparr>zi_events := renumber_events p (zi_events (zoneIndices d ! n))\<rparr>"
    let ?d = "d\<lparr>zoneIndices := (zoneIndices d)[n := ?z], effects := effects d @ [Renumber n p]\<rparr>"
    have IH: "zoneIndices (renumber_loop (n + 1) (p + length (zi_events (zoneIndices d ! n))) ?d) =
        take (n + 1) (zoneIndices ?d) @
        renumber_zones (p + length (zi_events (zoneIndices d ! n))) (drop (n + 1) (zoneIndices ?d))"
      using True by (intro "1.IH") (simp_all add: ZoneIndex_renumber_def)
    have "drop n (zoneIndices d) = zoneIndices d ! n # drop (Suc n) (zoneIndices d)"
      using True by (simp add: Cons_nth_drop_Suc)
    then show ?thesis
      using True IH by (simp add: renumber_loop_unfold take_Suc_conv_app_nth)
  next
    case False
    with "1.prems" show ?thesis by (simp add: renumber_loop_done)
  qed
qed

lemma renumber_loop_effects:
  "n \<le> length (zoneIndices d) \<Longrightarrow>
   effects (renumber_loop n p d) =
     effects d @ map (\<lambda>(i, s). Renumber i s)
       (zip [n..<length (zoneIndices d)] (renumber_starts p (drop n (zoneIndices d))))"
proof (induction n p d rule: renumber_loop.induct)
  case (1 n p d)
  show ?case
  proof (cases "n < length (zoneIndices d)")
    case True
    let ?z = "(zoneIndices d ! n)\<lparr>zi_events := renumber_events p (zi_events (zoneIndices d ! n))\<rparr>"
    let ?d = "d\<lparr>zoneIndices := (zoneIndices d)[n := ?z], effects := effects d @ [Renumber n p]\<rparr>"
    have IH: "effects (renumber_loop (n + 1) (p + length (zi_events (zoneIndices d ! n))) ?d) =
        effects ?d @ map (\<lambda>(i, s). Renumber i s)
          (zip [n + 1..<length (zoneIndices ?d)]
             (renumber_starts (p + length (zi_events (zoneIndices d ! n))) (drop (n + 1) (zoneIndices ?d))))"
      using True by (intro "1.IH") (simp_all add: ZoneIndex_renumber_def)
    have "drop n (zoneIndices d) = zoneIndices d ! n # drop (Suc n) (zoneIndices d)"
      using True by (simp add: Cons_nth_drop_Suc)
    then show ?thesis
      using True IH by (simp add: renumber_loop_unfold upt_conv_Cons)
  next
    case False
    with "1.prems" show ?thesis by (simp add: renumber_loop_done)
  qed
qed

lemma renumber_zones_eq: "zoneIndices (renumber d) = renumber_zones 1 (zoneIndices d)"
  by (simp add: renumber_def renumber_loop_zones)

lemma renumber_effects:
  "effects (renumber d) =
     effects d @ map (\<lambda>(i, s). Renumber i s)
       (zip [0..<length (zoneIndices d)] (renumber_starts 1 (zoneIndices d)))"
  by (simp add: renumber_def renumber_loop_effects)

lemma renumber_others [simp]:
  "totalEventCount (renumber_loop n p d) = totalEventCount d"
  "eventIndices (renumber_loop n p d) = eventIndices d"
  "summaryIndex (renumber_loop n p d) = summaryIndex d"
  by (induction n p d rule: renumber_loop.induct;
      subst renumber_loop.simps; simp add: ZoneIndex_renumber_def Let_def)+

lemma position_renumber_events: "map position (renumber_events p es) = [p..<p + length es]"
proof (induction es arbitrary: p)
  case Nil
  then show ?case by simp
next
  case (Cons e es)
  have "map position (renumber_events p (e # es)) = p # [Suc p..<Suc p + length es]"
    by (simp add: Cons.IH del: upt_Suc)
  also have "\<dots> = [p..<p + length (e # es)]"
    using upt_conv_Cons [of p "p + length (e # es)"] by (simp del: upt_Suc)
  finally show ?case .
qed

lemma length_renumber_events [simp]: "length (renumber_events p es) = length es"
  by (induction es arbitrary: p) simp_all

lemma positions_renumber_zones:
  "concat (map (\<lambda>z. map position (zi_events z)) (renumber_zones p zs)) =
     [p..<p + sum_list (map (\<lambda>z. length (zi_events z)) zs)]"
proof (induction zs arbitrary: p)
  case Nil
  then show ?case by simp
next
  case (Cons z zs)
  have "[p..<p + length (zi_events z)] @
        [p + length (zi_events z)..<p + length (zi_events z) + sum_list (map (\<lambda>z. length (zi_events z)) zs)] =
        [p..<p + length (zi_events z) + sum_list (map (\<lambda>z. length (zi_events z)) zs)]"
    by (metis le_add1 upt_add_eq_append)
  then show ?case
    by (simp add: Cons.IH position_renumber_events add.assoc)
qed

lemma lengths_renumber_zones [simp]:
  "map (\<lambda>z. length (zi_events z)) (renumber_zones p zs) = map (\<lambda>z. length (zi_events z)) zs"
  by (induction zs arbitrary: p) simp_all

lemma length_renumber_zones [simp]: "length (renumber_zones p zs) = length zs"
  by (induction zs arbitrary: p) simp_all

lemma renumber_dense:
  "all_positions (renumber d) = [1..<1 + event_count d] \<and> event_count (renumber d) = event_count d"
  by (simp add: all_positions_def event_count_def renumber_zones_eq positions_renumber_zones)

lemma renumber_starts_cong:
  "map (\<lambda>z. length (zi_events z)) zs = map (\<lambda>z. length (zi_events z)) zs' \<Longrightarrow>
   renumber_starts p zs = renumber_starts p zs'"
proof (induction zs arbitrary: p zs')
  case Nil
  then show ?case by simp
next
  case (Cons z zs)
  then obtain z' zs'' where "zs' = z' # zs''" by (cases zs') auto
  with Cons show ?case by simp
qed

lemma getZone_renumber_zones [simp]:
  "map getZone (renumber_zones p zs) = map getZone zs"
  by (induction zs arbitrary: p) (simp_all add: getZone_def)

lemma getZone_endInserting [simp]:
  "map getZone (zoneIndices (endInserting r d)) = map getZone (zoneIndices d)"
  by (simp add: endInserting_def map_zoneIndices_on_target getZone_def ZoneIndex_endInserting_def)

lemma lengths_endInserting [simp]:
  "map (\<lambda>z. length (zi_events z)) (zoneIndices (endInserting r d)) =
   map (\<lambda>z. length (zi_events z)) (zoneIndices d)"
  by (simp add: endInserting_def map_zoneIndices_on_target ZoneIndex_endInserting_def)

lemma endInserting_loop_effects:
  "n \<le> length ts \<Longrightarrow>
   effects (endInserting_loop ts n d) = effects d @ map EndInserting (rev (take n ts))"
  by (induction n arbitrary: d) (simp_all add: take_Suc_conv_app_nth)

lemma endInserting_loop_zones [simp]:
  "map getZone (zoneIndices (endInserting_loop ts n d)) = map getZone (zoneIndices d)"
  "map (\<lambda>z. length (zi_events z)) (zoneIndices (endInserting_loop ts n d)) =
   map (\<lambda>z. length (zi_events z)) (zoneIndices d)"
  by (induction n arbitrary: d) simp_all

lemma length_zoneIndices_endInserting_loop [simp]:
  "length (zoneIndices (endInserting_loop ts n d)) = length (zoneIndices d)"
  by (induction n arbitrary: d) simp_all

lemma getZone_fold_beginInserting [simp]:
  "map getZone (zoneIndices (fold beginInserting ts d)) = map getZone (zoneIndices d)"
  by (induction ts arbitrary: d) simp_all

lemma length_zoneIndices_fold_beginInserting [simp]:
  "length (zoneIndices (fold beginInserting ts d)) = length (zoneIndices d)"
  by (induction ts arbitrary: d) simp_all

lemma beginEventBatch_fields:
  assumes "beginEventBatch l0 = Inr l1"
  shows "insertingEvents l1" and "beginningZoneCount l1 = length (zoneIndices (db l0))"
    and "insertedEventCount l1 = insertedEventCount l0"
    and "map getZone (zoneIndices (db l1)) = map getZone (zoneIndices (db l0))"
    and "\<not> insertingEvents l0"
  using assms by (auto simp: beginEventBatch_def Let_def split: if_splits)

lemma traceEvent_fields [simp]:
  "insertingEvents (traceEvent I l e) = insertingEvents l"
  "beginningZoneCount (traceEvent I l e) = beginningZoneCount l"
  "insertedEventCount (traceEvent I l e) = insertedEventCount l + 1"
  by (simp_all add: traceEvent_def)

lemma getZone_traceEvent_zone:
  "\<exists>zs. map getZone (zoneIndices (db (traceEvent_zone e l))) =
     map getZone (zoneIndices (db l)) @ zs"
  by (simp add: traceEvent_zone_def Let_def)

lemma getZone_traceEvent:
  "\<exists>zs. map getZone (zoneIndices (db (traceEvent I l e))) =
     map getZone (zoneIndices (db l)) @ zs"
  using getZone_traceEvent_zone [of e "traceEvent_count I e (traceEvent_cache (traceEvent_dirty e l))"]
  by (simp add: traceEvent_def traceEvent_dispatch_def)

lemma ingest_fields [simp]:
  "insertingEvents (ingest I l es) = insertingEvents l"
  "beginningZoneCount (ingest I l es) = beginningZoneCount l"
  "insertedEventCount (ingest I l es) = insertedEventCount l + length es"
  by (induction es arbitrary: l) (simp_all add: ingest_def)

lemma getZone_ingest:
  "\<exists>zs. map getZone (zoneIndices (db (ingest I l es))) = map getZone (zoneIndices (db l)) @ zs"
proof (induction es arbitrary: l)
  case Nil
  then show ?case by (simp add: ingest_def)
next
  case (Cons e es)
  obtain zs where 1: "map getZone (zoneIndices (db (traceEvent I l e))) =
      map getZone (zoneIndices (db l)) @ zs"
    using getZone_traceEvent by blast
  obtain zs' where "map getZone (zoneIndices (db (ingest I (traceEvent I l e) es))) =
      map getZone (zoneIndices (db (traceEvent I l e))) @ zs'"
    using Cons.IH by blast
  with 1 show ?case by (simp add: ingest_def)
qed

lemma endEventBatch_result:
  assumes "insertingEvents l"
  defines "d1 \<equiv> endInserting_loop (eventTargets l) (length (eventTargets l)) (db l)"
  defines "d2 \<equiv> renumber d1"
  defines "d3 \<equiv> (if beginningZoneCount l \<noteq> length (zoneIndices d2)
                   then emitEvent (ZONES_ADDED (drop (beginningZoneCount l) (zoneIndices d2))) d2
                   else d2)"
  shows "endEventBatch l =
     Inr (l\<lparr>insertingEvents := False,
             insertedEventCount := 0,
             db := (if insertedEventCount l \<noteq> 0 then invalidate d3 else d3),
             eventTargets := []\<rparr>)"
  using assms(1) unfolding d1_def d2_def d3_def
  by (auto simp: endEventBatch_def Let_def)

lemma zoneCreate_cached:
  assumes "table_by_name l" "zone_cache_ok l" "registered l e"
  shows "(Some (eventType e) = zoneCreate (traceEvent_cache (traceEvent_dirty e l))) =
         (name (eventType e) = ''wtf.zone#create'')"
proof -
  have cached: "zoneCreate (traceEvent_cache (traceEvent_dirty e l)) =
      getEventType l ''wtf.zone#create''"
    using assms(2) by (auto simp: zone_cache_ok_def getEventType_def)
  have "(getEventType l ''wtf.zone#create'' = Some (eventType e)) =
        (name (eventType e) = ''wtf.zone#create'')"
  proof
    assume "getEventType l ''wtf.zone#create'' = Some (eventType e)"
    then show "name (eventType e) = ''wtf.zone#create''"
      using assms(1) by (rule getEventType_name [rotated])
  next
    assume "name (eventType e) = ''wtf.zone#create''"
    then show "getEventType l ''wtf.zone#create'' = Some (eventType e)"
      using assms(3) by (simp add: registered_def)
  qed
  then show ?thesis
    unfolding cached by (simp add: eq_commute)
qed

lemma traceEvent_zone_cases:
  assumes "table_by_name l" and "zone_cache_ok l" and "registered l e"
    and "name (eventType e) = ''wtf.zone#create''"
  shows
    "(zone_value e \<notin> set (map getZone (zoneIndices (db l))) \<longrightarrow>
        map getZone (zoneIndices (db (traceEvent I l e))) =
          map getZone (zoneIndices (db l)) @ [zone_value e] \<and>
        zi_inserting (zoneIndices (db (traceEvent I l e)) ! length (zoneIndices (db l))) \<and>
        eventTargets (traceEvent I l e) =
          eventTargets l @ [ZoneRef (length (zoneIndices (db l)))] \<and>
        effects (db (traceEvent I l e)) =
          effects (db l) @ [BeginInserting (ZoneRef (length (zoneIndices (db l))))] @
          map (\<lambda>r. InsertEvent r e) (eventTargets l @ [ZoneRef (length (zoneIndices (db l)))])) \<and>
     (zone_value e \<in> set (map getZone (zoneIndices (db l))) \<longrightarrow>
        map getZone (zoneIndices (db (traceEvent I l e))) = map getZone (zoneIndices (db l)) \<and>
        eventTargets (traceEvent I l e) = eventTargets l \<and>
        effects (db (traceEvent I l e)) =
          effects (db l) @ map (\<lambda>r. InsertEvent r e) (eventTargets l))"
proof -
  define lc where "lc = traceEvent_count I e (traceEvent_cache (traceEvent_dirty e l))"
  have is_create: "Some (eventType e) = zoneCreate lc"
    using zoneCreate_cached [OF assms(1-3)] assms(4) by (simp add: lc_def)
  have lc: "zoneIndices (db lc) = zoneIndices (db l)" "effects (db lc) = effects (db l)"
    "eventTargets lc = eventTargets l"
    by (simp_all add: lc_def)
  have tr: "traceEvent I l e = traceEvent_dispatch e (traceEvent_zone e lc)"
    by (simp add: traceEvent_def lc_def)
  show ?thesis
  proof (intro conjI impI)
    assume new: "zone_value e \<notin> set (map getZone (zoneIndices (db l)))"
    then have absent: "\<not> zone_present (zoneIndices (db lc)) (zone_value e)"
      by (simp add: zone_present_iff lc)
    note step = traceEvent_zone_new [OF is_create absent]
    show "map getZone (zoneIndices (db (traceEvent I l e))) =
          map getZone (zoneIndices (db l)) @ [zone_value e]"
      by (simp add: tr traceEvent_dispatch_def step lc getZone_def ZoneIndex_beginInserting_def
          new_ZoneIndex_def)
    have "map zi_inserting (zoneIndices (db (traceEvent I l e))) =
          map zi_inserting (zoneIndices (db l)) @ [True]"
      by (simp add: tr traceEvent_dispatch_def step lc ZoneIndex_beginInserting_def
          new_ZoneIndex_def)
    then have "map zi_inserting (zoneIndices (db (traceEvent I l e))) ! length (zoneIndices (db l))"
      by (simp add: nth_append)
    moreover have "length (zoneIndices (db l)) < length (zoneIndices (db (traceEvent I l e)))"
      by (simp add: tr traceEvent_dispatch_def step lc)
    ultimately show "zi_inserting (zoneIndices (db (traceEvent I l e)) ! length (zoneIndices (db l)))"
      by simp
    show "eventTargets (traceEvent I l e) =
          eventTargets l @ [ZoneRef (length (zoneIndices (db l)))]"
      by (simp add: tr step lc)
    show "effects (db (traceEvent I l e)) =
          effects (db l) @ [BeginInserting (ZoneRef (length (zoneIndices (db l))))] @
          map (\<lambda>r. InsertEvent r e) (eventTargets l @ [ZoneRef (length (zoneIndices (db l)))])"
      by (simp add: tr traceEvent_dispatch_def step lc)
  next
    assume old: "zone_value e \<in> set (map getZone (zoneIndices (db l)))"
    then have "zone_present (zoneIndices (db lc)) (zone_value e)"
      by (simp add: zone_present_iff lc)
    then have same: "traceEvent_zone e lc = lc"
      by (simp add: traceEvent_zone_old)
    show "map getZone (zoneIndices (db (traceEvent I l e))) = map getZone (zoneIndices (db l))"
      by (simp add: tr same traceEvent_dispatch_def lc)
    show "eventTargets (traceEvent I l e) = eventTargets l"
      by (simp add: tr same lc)
    show "effects (db (traceEvent I l e)) =
          effects (db l) @ map (\<lambda>r. InsertEvent r e) (eventTargets l)"
      by (simp add: tr same traceEvent_dispatch_def lc)
  qed
qed

lemma MIN_VALUE_pos: "0 < MIN_VALUE"
  by (simp add: MIN_VALUE_def)

lemma MAX_VALUE_pos: "0 < MAX_VALUE"
  by (simp add: MAX_VALUE_def)

lemma zone_cache_ok_traceEvent: "zone_cache_ok l \<Longrightarrow> zone_cache_ok (traceEvent I l e)"
  by (auto simp: zone_cache_ok_def traceEvent_def getEventType_def)

lemma S1_begin: "beginEventBatch S1_listener = Inr S1_started"
  by (simp add: S1_started_def beginEventBatch_def S1_listener_def new_Listener_def)

lemma S1_started_fields:
  "eventTable S1_started = S1_table" "zoneCreate S1_started = None"
  "scopeLeave S1_started = None"
  "eventTargets S1_started = [SummaryRef]" "zoneIndices (db S1_started) = []"
  "effects (db S1_started) = [BeginInserting SummaryRef]"
  by (simp_all add: S1_started_def beginEventBatch_def S1_listener_def new_Listener_def
      new_EventDatabase_def Let_def beginInserting_def on_target_def)

lemma S1_started_ok:
  "table_by_name S1_started" "zone_cache_ok S1_started" "registered S1_started S1_create"
  by (simp_all add: table_by_name_def zone_cache_ok_def registered_def
      getEventType_def S1_started_fields S1_table_def S1_create_def S1_event_def
      S1_zoneCreate_def S1_scopeEnter_def S1_scopeLeave_def)

lemma S1_create_fields:
  "name (eventType S1_create) = ''wtf.zone#create''" "zone_value S1_create = Some S1_Z"
  by (simp_all add: S1_create_def S1_event_def S1_zoneCreate_def)

lemma S1_first:
  "map getZone (zoneIndices (db (traceEvent S1_INTERNAL S1_started S1_create))) = [Some S1_Z]"
  "eventTargets (traceEvent S1_INTERNAL S1_started S1_create) = [SummaryRef, ZoneRef 0]"
  "effects (db (traceEvent S1_INTERNAL S1_started S1_create)) =
     [BeginInserting SummaryRef, BeginInserting (ZoneRef 0),
      InsertEvent SummaryRef S1_create, InsertEvent (ZoneRef 0) S1_create]"
  using traceEvent_zone_cases [OF S1_started_ok S1_create_fields(1), of S1_INTERNAL]
  by (simp_all add: S1_started_fields S1_create_fields)

text \<open>
  C6. A \<^verbatim>\<open>wtf.zone#create\<close> event that names a zone without a zone index makes
  \<^verbatim>\<open>traceEvent\<close> create one: it is appended to the zone list of the database and to the
  target list, and put into inserting mode (the call \<^verbatim>\<open>beginInserting\<close> on it comes
  before any \<^verbatim>\<open>insertEvent\<close> of this event, and the new index receives the event last).
  When the zone already has an index, no index is created: the zone list and the target
  list stay as they are and the event is only dispatched.
\<close>

theorem traceEvent_zone_create:
  assumes "table_by_name l" and "zone_cache_ok l" and "registered l e"
    and "name (eventType e) = ''wtf.zone#create''"
  shows
    "(zone_value e \<notin> set (map getZone (zoneIndices (db l))) \<longrightarrow>
        map getZone (zoneIndices (db (traceEvent I l e))) =
          map getZone (zoneIndices (db l)) @ [zone_value e] \<and>
        zi_inserting (zoneIndices (db (traceEvent I l e)) ! length (zoneIndices (db l))) \<and>
        eventTargets (traceEvent I l e) =
          eventTargets l @ [ZoneRef (length (zoneIndices (db l)))] \<and>
        effects (db (traceEvent I l e)) =
          effects (db l) @ [BeginInserting (ZoneRef (length (zoneIndices (db l))))] @
          map (\<lambda>r. InsertEvent r e) (eventTargets l @ [ZoneRef (length (zoneIndices (db l)))])) \<and>
     (zone_value e \<in> set (map getZone (zoneIndices (db l))) \<longrightarrow>
        map getZone (zoneIndices (db (traceEvent I l e))) = map getZone (zoneIndices (db l)) \<and>
        eventTargets (traceEvent I l e) = eventTargets l \<and>
        effects (db (traceEvent I l e)) =
          effects (db l) @ map (\<lambda>r. InsertEvent r e) (eventTargets l))"
  using assms by (rule traceEvent_zone_cases)

theorem traceEvent_zone_create_witness:
  "eventTargets (traceEvent S1_INTERNAL S1_started S1_create) = [SummaryRef, ZoneRef 0] \<and>
   map getZone (zoneIndices (db (traceEvent S1_INTERNAL S1_started S1_create))) = [Some S1_Z] \<and>
   zi_inserting (zoneIndices (db (traceEvent S1_INTERNAL S1_started S1_create)) ! 0) \<and>
   effects (db (traceEvent S1_INTERNAL S1_started S1_create)) =
     [BeginInserting SummaryRef, BeginInserting (ZoneRef 0),
      InsertEvent SummaryRef S1_create, InsertEvent (ZoneRef 0) S1_create] \<and>
   eventTargets (traceEvent S1_INTERNAL (traceEvent S1_INTERNAL S1_started S1_create) S1_create) =
     [SummaryRef, ZoneRef 0] \<and>
   map getZone (zoneIndices
     (db (traceEvent S1_INTERNAL (traceEvent S1_INTERNAL S1_started S1_create) S1_create))) =
     [Some S1_Z]"
proof -
  let ?l = "traceEvent S1_INTERNAL S1_started S1_create"
  have first: "map getZone (zoneIndices (db ?l)) = [Some S1_Z]"
    "zi_inserting (zoneIndices (db ?l) ! 0)"
    "eventTargets ?l = [SummaryRef, ZoneRef 0]"
    "effects (db ?l) = [BeginInserting SummaryRef, BeginInserting (ZoneRef 0),
      InsertEvent SummaryRef S1_create, InsertEvent (ZoneRef 0) S1_create]"
    using traceEvent_zone_create [OF S1_started_ok S1_create_fields(1), of S1_INTERNAL]
    by (simp_all add: S1_started_fields S1_create_fields)
  have ok: "table_by_name ?l" "zone_cache_ok ?l" "registered ?l S1_create"
    using S1_started_ok by (simp_all add: zone_cache_ok_traceEvent)
  have second: "map getZone (zoneIndices (db (traceEvent S1_INTERNAL ?l S1_create))) = [Some S1_Z]"
    "eventTargets (traceEvent S1_INTERNAL ?l S1_create) = [SummaryRef, ZoneRef 0]"
    using traceEvent_zone_create [OF ok S1_create_fields(1), of S1_INTERNAL]
    by (simp_all add: first S1_create_fields)
  from first second show ?thesis by simp
qed

text \<open>
  The count of the events of a batch is 0 in a new listener and after every
  \<^verbatim>\<open>endEventBatch\<close>, so it is 0 whenever a batch begins.
\<close>

lemma insertedEventCount_new_Listener: "insertedEventCount (new_Listener d tbl) = 0"
  by (simp add: new_Listener_def)

lemma insertedEventCount_endEventBatch:
  "endEventBatch l = Inr l' \<Longrightarrow> insertedEventCount l' = 0"
  by (auto simp: endEventBatch_def Let_def split: if_splits)

text \<open>
  C7. A batch that began with \<^verbatim>\<open>beginEventBatch\<close>, with no event counted before it,
  and ingested the events \<open>es\<close> ends without an error, and \<^verbatim>\<open>endEventBatch\<close> does, in
  this order: \<^verbatim>\<open>endInserting\<close> on
  the targets from the last to the first; the renumber pass over the zones in their
  order, the first from position 1 and each next one where the one before ended; the
  event \<^verbatim>\<open>ZONES_ADDED\<close> with the zone indices added since the batch began, if there is
  one; the event \<^verbatim>\<open>INVALIDATED\<close> if and only if the batch inserted an event. The zones
  that were there when the batch began are still the first of the list, and the target
  list is empty afterwards.
\<close>

theorem endEventBatch_effects:
  assumes started: "beginEventBatch l0 = Inr l1" and idle: "insertedEventCount l0 = 0"
  shows "case endEventBatch (ingest I l1 es) of
           Inl err \<Rightarrow> False
         | Inr l3 \<Rightarrow>
             effects (db l3) =
               effects (db (ingest I l1 es))
               @ map EndInserting (rev (eventTargets (ingest I l1 es)))
               @ map (\<lambda>(n, p). Renumber n p)
                   (zip [0..<length (zoneIndices (db l3))] (renumber_starts 1 (zoneIndices (db l3))))
               @ (if length (zoneIndices (db l0)) < length (zoneIndices (db l3))
                  then [EmitEvent (ZONES_ADDED
                          (drop (length (zoneIndices (db l0))) (zoneIndices (db l3))))]
                  else [])
               @ (if es \<noteq> [] then [EmitEvent INVALIDATED] else [])
             \<and> map getZone (zoneIndices (db l3)) = map getZone (zoneIndices (db (ingest I l1 es)))
             \<and> map getZone (take (length (zoneIndices (db l0))) (zoneIndices (db l3))) =
                 map getZone (zoneIndices (db l0))
             \<and> eventTargets l3 = []"
proof -
  define l2 where "l2 = ingest I l1 es"
  define d1 where "d1 = endInserting_loop (eventTargets l2) (length (eventTargets l2)) (db l2)"
  define d2 where "d2 = renumber d1"
  define d3 where "d3 = (if beginningZoneCount l2 \<noteq> length (zoneIndices d2)
                   then emitEvent (ZONES_ADDED (drop (beginningZoneCount l2) (zoneIndices d2))) d2
                   else d2)"
  define l3 where "l3 = l2\<lparr>insertingEvents := False, insertedEventCount := 0,
             db := (if insertedEventCount l2 \<noteq> 0 then invalidate d3 else d3),
             eventTargets := []\<rparr>"
  note b = beginEventBatch_fields [OF started]
  have ins: "insertingEvents l2" and bz: "beginningZoneCount l2 = length (zoneIndices (db l0))"
    and cnt: "insertedEventCount l2 = length es"
    using b idle by (simp_all add: l2_def)
  have res: "endEventBatch l2 = Inr l3"
    using endEventBatch_result [OF ins] by (simp add: l3_def d3_def d2_def d1_def)
  obtain zs where grow: "map getZone (zoneIndices (db l2)) = map getZone (zoneIndices (db l0)) @ zs"
    using getZone_ingest [of I l1 es] b(4) by (auto simp: l2_def)
  have z3: "zoneIndices (db l3) = zoneIndices d2"
    by (simp add: l3_def d3_def invalidate_def emitEvent_def)
  have gz: "map getZone (zoneIndices d2) = map getZone (zoneIndices (db l2))"
    by (simp add: d2_def d1_def renumber_zones_eq)
  have len: "length (zoneIndices d2) = length (zoneIndices (db l0)) + length zs"
    using arg_cong [OF gz, of length] arg_cong [OF grow, of length] by simp
  have starts: "renumber_starts 1 (zoneIndices d2) = renumber_starts 1 (zoneIndices d1)"
    by (rule renumber_starts_cong) (simp add: d2_def renumber_zones_eq)
  have e2: "effects d2 = effects (db l2) @ map EndInserting (rev (eventTargets l2)) @
      map (\<lambda>(n, p). Renumber n p)
        (zip [0..<length (zoneIndices d2)] (renumber_starts 1 (zoneIndices d2)))"
    unfolding starts
    by (simp add: d2_def renumber_effects renumber_zones_eq d1_def endInserting_loop_effects)
  have e3: "effects (db l3) = effects d2 @
      (if length (zoneIndices (db l0)) < length (zoneIndices d2)
       then [EmitEvent (ZONES_ADDED (drop (length (zoneIndices (db l0))) (zoneIndices d2)))]
       else []) @
      (if es \<noteq> [] then [EmitEvent INVALIDATED] else [])"
    using len by (auto simp: l3_def d3_def bz cnt invalidate_def emitEvent_def)
  have pre: "map getZone (take (length (zoneIndices (db l0))) (zoneIndices (db l3))) =
      map getZone (zoneIndices (db l0))"
    using arg_cong [OF gz, of "take (length (zoneIndices (db l0)))"] grow
    by (simp add: z3 take_map)
  have tg: "eventTargets l3 = []"
    by (simp add: l3_def)
  show ?thesis
    unfolding l2_def [symmetric] using res e2 e3 pre tg gz by (simp add: z3)
qed

theorem endEventBatch_effects_witness:
  "case endEventBatch (ingest S1_INTERNAL S1_started [S1_create]) of
     Inl err \<Rightarrow> False
   | Inr l3 \<Rightarrow>
       effects (db l3) =
         [BeginInserting SummaryRef, BeginInserting (ZoneRef 0),
          InsertEvent SummaryRef S1_create, InsertEvent (ZoneRef 0) S1_create,
          EndInserting (ZoneRef 0), EndInserting SummaryRef,
          Renumber 0 1,
          EmitEvent (ZONES_ADDED (zoneIndices (db l3))),
          EmitEvent INVALIDATED] \<and>
       eventTargets l3 = []"
proof -
  have idle: "insertedEventCount S1_listener = 0" and none: "zoneIndices (db S1_listener) = []"
    by (simp_all add: S1_listener_def new_Listener_def new_EventDatabase_def)
  have one: "ingest S1_INTERNAL S1_started [S1_create] = traceEvent S1_INTERNAL S1_started S1_create"
    by (simp add: ingest_def)
  note batch = endEventBatch_effects [OF S1_begin idle, of S1_INTERNAL "[S1_create]"]
  show ?thesis
  proof (cases "endEventBatch (ingest S1_INTERNAL S1_started [S1_create])")
    case (Inl err)
    with batch show ?thesis by simp
  next
    case (Inr l3)
    with batch have zones: "map getZone (zoneIndices (db l3)) = [Some S1_Z]"
      by (simp add: one S1_first)
    then obtain z where z: "zoneIndices (db l3) = [z]"
      by (cases "zoneIndices (db l3)") auto
    from batch Inr show ?thesis
      by (simp add: one S1_first none z)
  qed
qed

text \<open>
  C8. The database is the node at position 0. The renumber pass gives the events the
  positions 1, 2, ... in the order of the zone list and, inside a zone, of its events:
  read zone after zone the positions are exactly \<open>[1..<1 + N]\<close> for \<open>N\<close> events, so there
  is no gap and no duplicate; this holds after every \<^verbatim>\<open>endEventBatch\<close>.
\<close>

theorem renumber_positions_dense:
  "all_positions (renumber d) = [1..<1 + event_count d] \<and>
   event_count (renumber d) = event_count d \<and>
   getNodePosition d = 0 \<and>
   (insertingEvents l \<longrightarrow>
      (case endEventBatch l of
         Inl err \<Rightarrow> False
       | Inr l' \<Rightarrow>
           all_positions (db l') = [1..<1 + event_count (db l')] \<and>
           distinct (all_positions (db l')) \<and>
           set (all_positions (db l')) = {1..event_count (db l')} \<and>
           getNodePosition (db l') = 0))"
proof -
  have 1: "all_positions (renumber d) = [1..<1 + event_count d]"
    and 2: "event_count (renumber d) = event_count d" for d
    using renumber_dense by simp_all
  have 3: "case endEventBatch l of
         Inl err \<Rightarrow> False
       | Inr l' \<Rightarrow>
           all_positions (db l') = [1..<1 + event_count (db l')] \<and>
           distinct (all_positions (db l')) \<and>
           set (all_positions (db l')) = {1..event_count (db l')} \<and>
           getNodePosition (db l') = 0" if ins: "insertingEvents l"
  proof -
    define d1 where "d1 = endInserting_loop (eventTargets l) (length (eventTargets l)) (db l)"
    have z: "\<exists>l'. endEventBatch l = Inr l' \<and> zoneIndices (db l') = zoneIndices (renumber d1)"
      using endEventBatch_result [OF ins]
      by (simp add: d1_def invalidate_def emitEvent_def)
    then obtain l' where l': "endEventBatch l = Inr l'"
      "zoneIndices (db l') = zoneIndices (renumber d1)" by blast
    have p: "all_positions (db l') = [1..<1 + event_count (db l')]"
      using 1 [of d1] 2 [of d1] by (simp add: all_positions_def event_count_def l'(2))
    have "set [1..<1 + event_count (db l')] = {1..event_count (db l')}"
      by auto
    with p l'(1) show ?thesis
      by (simp add: getNodePosition_def)
  qed
  show ?thesis
    using 1 2 3 by (simp add: getNodePosition_def)
qed

theorem renumber_positions_dense_witness:
  "case endEventBatch R_listener of
     Inl err \<Rightarrow> False
   | Inr l' \<Rightarrow>
       all_positions (db l') = [1, 2, 3] \<and>
       map (\<lambda>z. map time (zi_events z)) (zoneIndices (db l')) = [[10, 20], [5]]"
proof -
  have ins: "insertingEvents R_listener"
    by (simp add: R_listener_def new_Listener_def)
  have ev: "case endEventBatch R_listener of
      Inl err \<Rightarrow> False
    | Inr l' \<Rightarrow> event_count (db l') = 3 \<and>
        map (\<lambda>z. map time (zi_events z)) (zoneIndices (db l')) = [[10, 20], [5]]"
    by (simp add: endEventBatch_def R_listener_def new_Listener_def new_EventDatabase_def Let_def
        renumber_def renumber_loop.simps ZoneIndex_renumber_def endInserting_def on_target_def
        ZoneIndex_endInserting_def SummaryIndex_endInserting_def new_SummaryIndex_def
        R_zone_def R_event_def emitEvent_def invalidate_def numeral_3_eq_3 event_count_def)
  have "[1..<4] = [1, 2, 3::nat]"
    by (simp add: upt_conv_Cons)
  with ev renumber_positions_dense [of new_EventDatabase R_listener] ins show ?thesis
    by (auto split: sum.splits)
qed

section \<open>Looking up and creating indices\<close>


lemma getEventIndex_loop_Some:
  "getEventIndex_loop xs n nm = Some k \<Longrightarrow>
   n \<le> k \<and> k - n < length xs \<and> getEventName (xs ! (k - n)) = nm \<and>
   (\<forall>j < k - n. getEventName (xs ! j) \<noteq> nm)"
proof (induction xs arbitrary: n)
  case Nil
  then show ?case by simp
next
  case (Cons x xs)
  show ?case
  proof (cases "getEventName x = nm")
    case True
    with Cons.prems show ?thesis by simp
  next
    case False
    with Cons.prems have "getEventIndex_loop xs (Suc n) nm = Some k" by simp
    from Cons.IH [OF this] have k: "Suc n \<le> k" "k - Suc n < length xs"
      "getEventName (xs ! (k - Suc n)) = nm" "\<forall>j < k - Suc n. getEventName (xs ! j) \<noteq> nm"
      by simp_all
    then have eq: "k - n = Suc (k - Suc n)" by simp
    show ?thesis
      using k False unfolding eq by (auto simp: less_Suc_eq_0_disj)
  qed
qed








lemma getFirstFrameIndex_loop_None:
  "(getFirstFrameIndex_loop zs = None) = (\<forall>z \<in> set zs. getCount (getFrameIndex z) = 0)"
  by (induction zs) (auto simp: Let_def)

lemma getFirstFrameIndex_loop_Some:
  "getFirstFrameIndex_loop zs = Some f \<Longrightarrow>
   \<exists>n < length zs. f = getFrameIndex (zs ! n) \<and> getCount f \<noteq> 0 \<and>
     (\<forall>m < n. getCount (getFrameIndex (zs ! m)) = 0)"
proof (induction zs)
  case Nil
  then show ?case by simp
next
  case (Cons z zs)
  show ?case
  proof (cases "getCount (getFrameIndex z) \<noteq> 0")
    case True
    with Cons.prems have "f = getFrameIndex z" by (simp add: Let_def)
    with True show ?thesis by (intro exI [of _ 0]) simp
  next
    case False
    with Cons.prems have "getFirstFrameIndex_loop zs = Some f" by (simp add: Let_def)
    from Cons.IH [OF this] obtain n where n: "n < length zs" "f = getFrameIndex (zs ! n)"
      "getCount f \<noteq> 0" "\<forall>m < n. getCount (getFrameIndex (zs ! m)) = 0" by blast
    show ?thesis
      using n False by (intro exI [of _ "Suc n"]) (auto simp: less_Suc_eq_0_disj)
  qed
qed

text \<open>
  C10. \<^verbatim>\<open>getFirstFrameIndex\<close> returns the frame index of the first zone index, in the
  order of the zone list, whose frame index has a frame; it returns null exactly when no
  zone has one (in particular when there is no zone), and what it returns is never an
  empty frame index.
\<close>

theorem getFirstFrameIndex_first:
  "(case getFirstFrameIndex d of
      None \<Rightarrow> \<forall>z \<in> set (zoneIndices d). getCount (getFrameIndex z) = 0
    | Some f \<Rightarrow>
        getCount f \<noteq> 0 \<and>
        (\<exists>n < length (zoneIndices d). f = getFrameIndex (zoneIndices d ! n) \<and>
           (\<forall>m < n. getCount (getFrameIndex (zoneIndices d ! m)) = 0))) \<and>
   ((\<forall>z \<in> set (zoneIndices d). getCount (getFrameIndex z) = 0) \<longrightarrow>
      getFirstFrameIndex d = None)"
proof -
  have "getFirstFrameIndex d = None"
    if "\<forall>z \<in> set (zoneIndices d). getCount (getFrameIndex z) = 0"
    using that by (simp add: getFirstFrameIndex_def getFirstFrameIndex_loop_None)
  moreover have "\<forall>z \<in> set (zoneIndices d). getCount (getFrameIndex z) = 0"
    if "getFirstFrameIndex d = None"
    using that by (simp add: getFirstFrameIndex_def getFirstFrameIndex_loop_None)
  moreover have "getCount f \<noteq> 0 \<and>
        (\<exists>n < length (zoneIndices d). f = getFrameIndex (zoneIndices d ! n) \<and>
           (\<forall>m < n. getCount (getFrameIndex (zoneIndices d ! m)) = 0))"
    if "getFirstFrameIndex d = Some f" for f
    using getFirstFrameIndex_loop_Some [of "zoneIndices d" f] that
    by (auto simp: getFirstFrameIndex_def)
  ultimately show ?thesis
    by (auto split: option.splits)
qed

theorem getFirstFrameIndex_first_witness:
  "getFirstFrameIndex F_db = Some \<lparr>frames = [R_event 1 1, R_event 2 2]\<rparr>"
proof -
  have zs: "zoneIndices F_db = [F_zone [], F_zone [R_event 1 1, R_event 2 2], F_zone [R_event 3 3]]"
    by (simp add: F_db_def new_EventDatabase_def)
  have cnt: "getCount (getFrameIndex (F_zone fs)) = length fs" for fs
    by (simp add: getCount_def getFrameIndex_def F_zone_def)
  note first = getFirstFrameIndex_first [of F_db]
  show ?thesis
  proof (cases "getFirstFrameIndex F_db")
    case None
    with first have "getCount (getFrameIndex (F_zone [R_event 3 3])) = 0"
      by (simp add: zs)
    then show ?thesis by (simp add: cnt)
  next
    case (Some f)
    with first have "getCount f \<noteq> 0 \<and>
        (\<exists>n < length (zoneIndices F_db). f = getFrameIndex (zoneIndices F_db ! n) \<and>
           (\<forall>m < n. getCount (getFrameIndex (zoneIndices F_db ! m)) = 0))"
      by simp
    then obtain n where n: "n < length (zoneIndices F_db)"
      "f = getFrameIndex (zoneIndices F_db ! n)"
      "getCount f \<noteq> 0" "\<forall>m < n. getCount (getFrameIndex (zoneIndices F_db ! m)) = 0"
      by blast
    from n(1) have "n < 3" by (simp add: zs)
    then consider "n = 0" | "n = 1" | "n = 2" by linarith
    then show ?thesis
    proof cases
      case 1
      with n(2,3) show ?thesis by (simp add: zs cnt)
    next
      case 2
      with n(2) Some show ?thesis by (simp add: zs getFrameIndex_def F_zone_def)
    next
      case 3
      with n(4) have "getCount (getFrameIndex (zoneIndices F_db ! 1)) = 0" by simp
      then show ?thesis by (simp add: zs cnt)
    qed
  qed
qed

section \<open>The data of a flow\<close>

lemma put_plain:
  "prototype d = ObjectPrototype \<Longrightarrow> k \<noteq> ''__proto__'' \<Longrightarrow>
   put k v d = d\<lparr>own := (own d)(k \<mapsto> v)\<rparr>"
  by (simp add: put_def inherits_readonly_def)

lemma merge_Nil [simp]: "merge data [] = data"
  by (simp add: merge_def)

lemma merge_Cons: "merge data ((k, v) # kvs) = merge (data(k \<mapsto> v)) kvs"
  by (simp add: merge_def fun_eq_iff map_add_def split: option.splits)

lemma getData_args_plain:
  "prototype data = ObjectPrototype \<Longrightarrow> ''__proto__'' \<notin> arg_name ` set as \<Longrightarrow>
   getData_args as e data =
     data\<lparr>own := merge (own data) (map (\<lambda>a. (arg_name a, get_arg e (arg_name a))) as)\<rparr>"
proof (induction as arbitrary: data)
  case Nil
  then show ?case by simp
next
  case (Cons a as)
  from Cons.prems have "put (arg_name a) (get_arg e (arg_name a)) data =
      data\<lparr>own := (own data)(arg_name a \<mapsto> get_arg e (arg_name a))\<rparr>"
    by (intro put_plain) auto
  with Cons show ?case
    by (simp add: merge_Cons)
qed

lemma getData_event_plain:
  assumes "prototype data = ObjectPrototype" and "\<not> sets_key T I ''__proto__'' e"
  shows "getData_event T I e data = data\<lparr>own := merge (own data) (event_pairs T I e)\<rparr>"
proof (cases "flags (eventType e) AND I \<noteq> 0")
  case True
  with assms(2) have "T (get_arg e ''name'') \<noteq> ''__proto__''"
    by (simp add: sets_key_def event_pairs_def)
  with True assms(1) show ?thesis
    by (simp add: getData_event_def event_pairs_def put_plain merge_Cons)
next
  case False
  with assms(2) have "''__proto__'' \<notin> arg_name ` set (drop 1 (type_args (eventType e)))"
    by (simp add: sets_key_def event_pairs_def image_image drop_Suc)
  with False assms(1) show ?thesis
    by (simp add: getData_event_def event_pairs_def getData_args_plain drop_Suc)
qed

lemma getData_loop_plain:
  "prototype data = ObjectPrototype \<Longrightarrow> \<forall>e \<in> set es. \<not> sets_key T I ''__proto__'' e \<Longrightarrow>
   getData_loop T I es data =
     data\<lparr>own := foldl (\<lambda>d e. merge d (event_pairs T I e)) (own data) es\<rparr>"
  by (induction es arbitrary: data) (simp_all add: getData_event_plain)

lemma merge_other: "k \<notin> fst ` set kvs \<Longrightarrow> merge data kvs k = data k"
  by (simp add: merge_def map_add_def map_of_eq_None_iff [THEN iffD2] split: option.splits)

lemma merge_sets: "k \<in> fst ` set kvs \<Longrightarrow> merge data kvs k = map_of (rev kvs) k"
  by (auto simp: merge_def map_add_def map_of_eq_None_iff split: option.splits)

lemma foldl_merge_other:
  "\<forall>e \<in> set es. \<not> sets_key T I k e \<Longrightarrow>
   foldl (\<lambda>d e. merge d (event_pairs T I e)) data es k = data k"
  by (induction es arbitrary: data) (simp_all add: merge_other sets_key_def)

lemma dataEvents_fold_addDataEvent:
  "dataEvents (fold addDataEvent es f) =
     (if es = [] then dataEvents f
      else Some ((case dataEvents f of None \<Rightarrow> [] | Some old \<Rightarrow> old) @ es))"
  by (induction es arbitrary: f) (auto simp: addDataEvent_def split: option.splits)

text \<open>
  Of a flow none of whose data events sets the key \<^verbatim>\<open>__proto__\<close>, \<^verbatim>\<open>getData\<close>
  returns a plain object whose own properties are the left fold of the merges, in the
  order in which \<^verbatim>\<open>addDataEvent\<close> received the events; where several events set a
  key, the object holds the value of the last of them.
\<close>

lemma getData_without_proto:
  assumes "\<forall>e \<in> set es. \<not> sets_key T I ''__proto__'' e"
  shows "getData T I (fold addDataEvent es (new_Flow fid parent)) =
           \<lparr>own = merged T I es, prototype = ObjectPrototype\<rparr>"
proof (cases "es = []")
  case True
  then show ?thesis
    by (simp add: getData_def new_Flow_def new_Object_def merged_def)
next
  case False
  then have "dataEvents (fold addDataEvent es (new_Flow fid parent)) = Some es"
    by (simp add: dataEvents_fold_addDataEvent new_Flow_def)
  with assms show ?thesis
    by (simp add: getData_def getData_loop_plain new_Object_def merged_def)
qed

lemma merged_last_wins:
  assumes "sets_key T I k e" and "\<forall>e' \<in> set es2. \<not> sets_key T I k e'"
  shows "merged T I (es1 @ e # es2) k = map_of (rev (event_pairs T I e)) k"
  using assms by (simp add: merged_def foldl_merge_other merge_sets sets_key_def [symmetric])

lemma G_pairs:
  "event_pairs G_key S1_INTERNAL G_builtin = [(''a'', Data (JNumber 1))]"
  "event_pairs G_key S1_INTERNAL G_custom =
     [(''a'', Data (JNumber 2)), (''b'', Data (JNumber 3))]"
  by (simp_all add: event_pairs_def G_custom_def G_builtin_def G_appendData_def
      S1_INTERNAL_def get_arg_def G_key_def)

lemma getData_G_flow:
  "own (getData G_key S1_INTERNAL G_flow) ''a'' = Some (Data (JNumber 2)) \<and>
   own (getData G_key S1_INTERNAL G_flow) ''b'' = Some (Data (JNumber 3)) \<and>
   own (getData G_key S1_INTERNAL G_flow) ''flowId'' = None"
proof -
  have "\<forall>e \<in> set [G_builtin, G_custom]. \<not> sets_key G_key S1_INTERNAL ''__proto__'' e"
    by (simp add: sets_key_def G_pairs)
  from getData_without_proto [OF this, of 7 None]
  have "own (getData G_key S1_INTERNAL G_flow) = merged G_key S1_INTERNAL [G_builtin, G_custom]"
    by (simp add: G_flow_def)
  then show ?thesis
    by (simp add: merged_def G_pairs merge_def)
qed

text \<open>
  C4. A flow whose one data event is a builtin appender with the name \<^verbatim>\<open>__proto__\<close>
  and the value 1: the event contributes the pair of that name and value, and the left
  fold of the merges holds 1 under \<^verbatim>\<open>__proto__\<close>. The object \<^verbatim>\<open>getData\<close> returns has no
  property of that name: it is the empty object, as for a flow without data. The
  assignment \<^verbatim>\<open>data['__proto__'] = 1\<close> calls the setter that \<^verbatim>\<open>Object.prototype\<close> has
  under that key, which ignores a number.
\<close>

theorem getData_proto_key_dropped:
  "dataEvents P_flow = Some [P_event] \<and>
   flags (eventType P_event) AND S1_INTERNAL \<noteq> 0 \<and>
   event_pairs G_key S1_INTERNAL P_event = [(''__proto__'', Data (JNumber 1))] \<and>
   merged G_key S1_INTERNAL [P_event] ''__proto__'' = Some (Data (JNumber 1)) \<and>
   own (getData G_key S1_INTERNAL P_flow) ''__proto__'' = None \<and>
   getData G_key S1_INTERNAL P_flow = new_Object"
proof -
  have es: "dataEvents P_flow = Some [P_event]"
    by (simp add: P_flow_def addDataEvent_def new_Flow_def)
  have internal: "flags (eventType P_event) AND S1_INTERNAL \<noteq> 0"
    by (simp add: P_event_def G_appendData_def S1_INTERNAL_def)
  have pairs: "event_pairs G_key S1_INTERNAL P_event = [(''__proto__'', Data (JNumber 1))]"
    using internal by (simp add: event_pairs_def) (simp add: P_event_def get_arg_def G_key_def)
  have spec: "merged G_key S1_INTERNAL [P_event] ''__proto__'' = Some (Data (JNumber 1))"
    by (simp add: merged_def pairs merge_def)
  have "getData_event G_key S1_INTERNAL P_event new_Object =
      put ''__proto__'' (Data (JNumber 1)) new_Object"
    using internal by (simp add: getData_event_def) (simp add: P_event_def get_arg_def G_key_def)
  also have "\<dots> = new_Object"
    by (simp add: put_def inherits_accessor_def new_Object_def)
  finally have code: "getData G_key S1_INTERNAL P_flow = new_Object"
    by (simp add: getData_def es)
  then have "own (getData G_key S1_INTERNAL P_flow) ''__proto__'' = None"
    by (simp add: new_Object_def)
  with es internal pairs spec code show ?thesis
    by simp
qed

section \<open>Queries\<close>

lemma matches_Once:
  "matches (Once a # k) w = (\<exists>c v. w = c # v \<and> accepts a c \<and> matches k v)"
  by (cases w) auto

lemma matches_ZeroOrMore:
  "matches (ZeroOrMore a # k) w =
     (\<exists>u v. w = u @ v \<and> (\<forall>c \<in> set u. accepts a c) \<and> matches k v)"
proof (induction w)
  case Nil
  then show ?case by simp
next
  case (Cons c w)
  show ?case
  proof
    assume "matches (ZeroOrMore a # k) (c # w)"
    then consider "matches k (c # w)" | "accepts a c" "matches (ZeroOrMore a # k) w"
      by auto
    then show "\<exists>u v. c # w = u @ v \<and> (\<forall>c \<in> set u. accepts a c) \<and> matches k v"
    proof cases
      case 1
      then show ?thesis by (intro exI [of _ "[]"] exI [of _ "c # w"]) simp
    next
      case 2
      with Cons.IH obtain u v where "w = u @ v" "\<forall>c \<in> set u. accepts a c" "matches k v"
        by auto
      with 2(1) show ?thesis by (intro exI [of _ "c # u"] exI [of _ v]) simp
    qed
  next
    assume "\<exists>u v. c # w = u @ v \<and> (\<forall>c \<in> set u. accepts a c) \<and> matches k v"
    then obtain u v where uv: "c # w = u @ v" "\<forall>c \<in> set u. accepts a c" "matches k v"
      by auto
    show "matches (ZeroOrMore a # k) (c # w)"
    proof (cases u)
      case Nil
      with uv have "matches k (c # w)" by simp
      then show ?thesis by simp
    next
      case (Cons c' u')
      with uv have "c' = c" "w = u' @ v" "accepts a c" "\<forall>c \<in> set u'. accepts a c"
        by auto
      with uv(3) Cons.IH show ?thesis by auto
    qed
  qed
qed

lemma matches_OneOrMore:
  "matches (OneOrMore a # k) w =
     (\<exists>u v. w = u @ v \<and> u \<noteq> [] \<and> (\<forall>c \<in> set u. accepts a c) \<and> matches k v)"
proof (cases w)
  case Nil
  then show ?thesis by simp
next
  case (Cons c w')
  show ?thesis
  proof
    assume "matches (OneOrMore a # k) w"
    with Cons obtain u v where "accepts a c" "w' = u @ v" "\<forall>c \<in> set u. accepts a c" "matches k v"
      by (auto simp: matches_ZeroOrMore)
    with Cons show "\<exists>u v. w = u @ v \<and> u \<noteq> [] \<and> (\<forall>c \<in> set u. accepts a c) \<and> matches k v"
      by (intro exI [of _ "c # u"] exI [of _ v]) simp
  next
    assume "\<exists>u v. w = u @ v \<and> u \<noteq> [] \<and> (\<forall>c \<in> set u. accepts a c) \<and> matches k v"
    then obtain u v where uv: "w = u @ v" "u \<noteq> []" "\<forall>c \<in> set u. accepts a c" "matches k v"
      by auto
    then obtain c' u' where u: "u = c' # u'" by (cases u) auto
    with uv Cons have "c' = c" "w' = u' @ v" "accepts a c" "\<forall>c \<in> set u'. accepts a c"
      by auto
    with uv(4) Cons show "matches (OneOrMore a # k) w"
      by (auto simp: matches_ZeroOrMore)
  qed
qed

lemma matches_regex_literal:
  "matches regex_literal expr =
     (\<exists>body flags. expr = [SLASH] @ body @ [SLASH] @ flags \<and> body \<noteq> [] \<and>
        (\<forall>c \<in> set body. \<not> lineTerminator c) \<and> set flags \<subseteq> set (ascii ''gim''))"
  unfolding regex_literal_def matches_Once matches_OneOrMore matches_ZeroOrMore
  by (auto simp: subset_iff) blast+

lemma indexOf_from_absent: "0 \<le> n \<Longrightarrow> (indexOf_from s c n = - 1) = (c \<notin> set s)"
proof (induction s arbitrary: n)
  case Nil
  then show ?case by simp
next
  case (Cons x s)
  then show ?case by auto
qed

lemma indexOf_absent: "(indexOf s c = - 1) = (c \<notin> set s)"
  by (simp add: indexOf_def indexOf_from_absent)

lemma charAt_0: "(charAt expr 0 \<noteq> [c]) = (\<forall>rest. expr \<noteq> c # rest)"
  by (cases expr) (simp_all add: charAt_def)

lemma fold_query_callback:
  "fold (query_callback I ev) es result = result @ map to_item (filter (passes I ev) es)"
  by (induction es arbitrary: result) (auto simp: query_callback_def passes_def to_item_def)

lemma fold_zones:
  "fold (\<lambda>zoneIndex result. fold (query_callback I ev) (f zoneIndex) result) zs result =
     result @ map to_item (filter (passes I ev) (concat (map f zs)))"
  by (induction zs arbitrary: result) (simp_all add: fold_query_callback)

lemma set_insort_by [simp]: "set (insort_by cmp x ys) = insert x (set ys)"
  by (induction ys) auto

lemma mset_insort_by [simp]: "mset (insort_by cmp x ys) = add_mset x (mset ys)"
  by (induction ys) auto

lemma mset_Array_sort [simp]: "mset (Array_sort cmp xs) = mset xs"
  by (induction xs) (simp_all add: Array_sort_def)

lemma set_Array_sort [simp]: "set (Array_sort cmp xs) = set xs"
  by (induction xs) (simp_all add: Array_sort_def)

lemma sorted_insort_by:
  assumes "consistent cmp" "sorted_wrt (\<lambda>a b. cmp a b \<le> 0) ys"
  shows "sorted_wrt (\<lambda>a b. cmp a b \<le> 0) (insort_by cmp x ys)"
  using assms(2)
proof (induction ys)
  case Nil
  then show ?case by simp
next
  case (Cons y ys)
  have total: "cmp a b \<le> 0 \<or> cmp b a \<le> 0" for a b
    using assms(1) unfolding consistent_def by blast
  have trans: "cmp a b \<le> 0 \<Longrightarrow> cmp b c \<le> 0 \<Longrightarrow> cmp a c \<le> 0" for a b c
    using assms(1) unfolding consistent_def by blast
  show ?case
  proof (cases "cmp x y \<le> 0")
    case True
    have "cmp x z \<le> 0" if "z \<in> set ys" for z
    proof -
      from that Cons.prems have "cmp y z \<le> 0" by simp
      with True show ?thesis by (rule trans)
    qed
    with True Cons.prems show ?thesis by simp
  next
    case False
    with total have "cmp y x \<le> 0" by blast
    moreover from Cons have "sorted_wrt (\<lambda>a b. cmp a b \<le> 0) (insort_by cmp x ys)"
      by simp
    ultimately show ?thesis
      using False Cons.prems by simp
  qed
qed

lemma sorted_Array_sort:
  "consistent cmp \<Longrightarrow> sorted_wrt (\<lambda>a b. cmp a b \<le> 0) (Array_sort cmp xs)"
  by (induction xs) (simp_all add: Array_sort_def sorted_insort_by)

lemma consistent_by_time_position: "consistent by_time_position"
  unfolding consistent_def by_time_position_def
  by (auto split: if_splits)

lemma by_time_position_le:
  "(by_time_position a b \<le> 0) =
     (time (item_event a) < time (item_event b) \<or>
      time (item_event a) = time (item_event b) \<and>
      position (item_event a) \<le> position (item_event b))"
  by (auto simp: by_time_position_def)

lemma query_filter_mset:
  "mset (query_filter I c d ev) = mset (map to_item (filter (passes I ev) (visited c d)))"
  by (simp add: query_filter_def fold_zones visited_def)

lemma item_event_to_item [simp]: "item_event (to_item e) = e"
  by (simp add: to_item_def)

lemma query_filter_sorted:
  "query_filter I c d ev =
     Array_sort (comparer c) (map to_item (filter (passes I ev) (visited c d)))"
  by (simp add: query_filter_def fold_zones visited_def)

lemma query_filter_outcome:
  assumes "isFilter expr"
  shows "query I c d expr t0 t1 =
     (if parse_failed (setFromString c expr) then Inl InvalidRegex
      else case getEvaluator (setFromString c expr) of
             None \<Rightarrow> Inl TypeError
           | Some ev \<Rightarrow>
               Inr \<lparr>qr_expr = expr, qr_compiledExpr = CompiledFilter (ev_toString ev),
                    qr_duration = t1 - t0,
                    qr_result = FilterResult (query_filter I c d (Some ev))\<rparr>)"
  using assms by (simp add: query_def query_as_filter_def Let_def split: option.splits)

lemma classify_TreeExpression_nonempty: "classify expr = TreeExpression \<Longrightarrow> expr \<noteq> []"
  by (auto simp: classify_def charAt_def indexOf_def)

text \<open>
  The array the filter branch builds, for a filter with or without an evaluator: it
  holds no event whose type has the \<^verbatim>\<open>INTERNAL\<close> flag; each element passes the
  evaluator, and with no evaluator every event without the flag passes; a scope event is
  there as its scope and any other event as itself; the elements are exactly the passing
  events among those the zone indices hand over; and it is ordered by the comparison
  function it was sorted with, whenever that is consistent, and so by time and then
  position for the comparison of the specification.
\<close>

lemma query_filter_elements:
  "(\<forall>x \<in> set (query_filter I c d ev).
      flags (eventType (item_event x)) AND I = 0 \<and>
      (case ev of None \<Rightarrow> True | Some p \<Rightarrow> ev_test p (item_event x)) \<and>
      x = (if isScopeEvent (item_event x) then ScopeItem (item_event x)
           else EventItem (item_event x))) \<and>
   mset (map item_event (query_filter I c d ev)) =
     mset (filter (passes I ev) (visited c d)) \<and>
   (consistent (comparer c) \<longrightarrow>
      sorted_wrt (\<lambda>a b. comparer c a b \<le> 0) (query_filter I c d ev)) \<and>
   (comparer c = by_time_position \<longrightarrow>
      sorted_wrt (\<lambda>a b. time (item_event a) < time (item_event b) \<or>
                        time (item_event a) = time (item_event b) \<and>
                        position (item_event a) \<le> position (item_event b))
        (query_filter I c d ev))"
proof (intro conjI ballI impI)
  fix x
  assume "x \<in> set (query_filter I c d ev)"
  moreover have "set (query_filter I c d ev) =
      set (map to_item (filter (passes I ev) (visited c d)))"
    using arg_cong [OF query_filter_mset, of set_mset I c d ev] by simp
  ultimately obtain e where e: "x = to_item e" "passes I ev e"
    by auto
  from e show "flags (eventType (item_event x)) AND I = 0"
    by (simp add: passes_def)
  from e show "case ev of None \<Rightarrow> True | Some p \<Rightarrow> ev_test p (item_event x)"
    by (auto simp: passes_def split: option.splits)
  from e show "x = (if isScopeEvent (item_event x) then ScopeItem (item_event x)
           else EventItem (item_event x))"
    by (simp add: to_item_def)
next
  have "mset (map item_event (query_filter I c d ev)) =
      image_mset item_event (mset (query_filter I c d ev))"
    by simp
  also have "\<dots> = mset (filter (passes I ev) (visited c d))"
    unfolding query_filter_mset by (simp add: multiset.map_comp comp_def)
  finally show "mset (map item_event (query_filter I c d ev)) =
     mset (filter (passes I ev) (visited c d))" .
next
  assume "consistent (comparer c)"
  then show "sorted_wrt (\<lambda>a b. comparer c a b \<le> 0) (query_filter I c d ev)"
    by (simp add: query_filter_def sorted_Array_sort)
next
  assume "comparer c = by_time_position"
  then have "sorted_wrt (\<lambda>a b. by_time_position a b \<le> 0) (query_filter I c d ev)"
    using sorted_Array_sort [OF consistent_by_time_position] by (simp add: query_filter_def)
  then show "sorted_wrt (\<lambda>a b. time (item_event a) < time (item_event b) \<or>
                        time (item_event a) = time (item_event b) \<and>
                        position (item_event a) \<le> position (item_event b))
        (query_filter I c d ev)"
    by (simp add: by_time_position_le)
qed

text \<open>
  With a filter that parses and has an evaluator, \<^verbatim>\<open>query\<close> returns, and the result it
  returns is that array.
\<close>

lemma query_filter_returns:
  assumes "isFilter expr" and "\<not> parse_failed (setFromString c expr)"
    and "getEvaluator (setFromString c expr) = Some ev"
  shows "\<exists>r. query I c d expr t0 t1 = Inr r \<and>
              qr_result r = FilterResult (query_filter I c d (Some ev))"
  using assms by (simp add: query_filter_outcome)

lemma Q_range:
  "MIN_VALUE \<le> 1" "MIN_VALUE \<le> 5" "MIN_VALUE \<le> 10" "MIN_VALUE \<le> 30"
  "1 \<le> MAX_VALUE" "5 \<le> MAX_VALUE" "10 \<le> MAX_VALUE" "30 \<le> MAX_VALUE"
  by (simp_all add: MIN_VALUE_def MAX_VALUE_def)

lemma Q_visited:
  "visited Q_collaborators Q_db =
     [Q_event S1_zoneCreate 1 1 False, Q_event S1_scopeEnter 10 2 True,
      Q_event S1_scopeLeave 30 3 False, Q_event S1_scopeEnter 5 4 True]"
  by (simp add: visited_def Q_collaborators_def Q_db_def new_EventDatabase_def R_zone_def
      Q_event_def S1_event_def Q_range)

lemma Q_passes_all:
  "filter (passes S1_INTERNAL None) (visited Q_collaborators Q_db) =
     [Q_event S1_scopeEnter 10 2 True, Q_event S1_scopeLeave 30 3 False,
      Q_event S1_scopeEnter 5 4 True]"
  by (simp add: Q_visited passes_def S1_INTERNAL_def Q_event_def S1_event_def
      S1_zoneCreate_def S1_scopeEnter_def S1_scopeLeave_def)

lemma Q_passes_enter:
  "filter (passes S1_INTERNAL (Some Q_evaluator)) (visited Q_collaborators Q_db) =
     [Q_event S1_scopeEnter 10 2 True, Q_event S1_scopeEnter 5 4 True]"
  by (simp add: Q_visited passes_def S1_INTERNAL_def Q_event_def S1_event_def
      S1_zoneCreate_def S1_scopeEnter_def S1_scopeLeave_def Q_evaluator_def)

lemma Q_sorted_enter:
  "Array_sort by_time_position
     [to_item (Q_event S1_scopeEnter 10 2 True), to_item (Q_event S1_scopeEnter 5 4 True)] =
   [ScopeItem (Q_event S1_scopeEnter 5 4 True), ScopeItem (Q_event S1_scopeEnter 10 2 True)]"
  by (simp add: Array_sort_def by_time_position_def to_item_def Q_event_def S1_event_def)

text \<open>
  C2. \<^verbatim>\<open>query\<close> classifies its text in three ways. A text that does not begin with
  \<^verbatim>\<open>/\<close> and contains no \<^verbatim>\<open>(\<close> is a substring filter. Otherwise a text of the form
  \<^verbatim>\<open>/body/flags\<close>, where the body is not empty and has no line terminator (as in a
  regular expression literal) and the flags are letters of \<^verbatim>\<open>g\<close>, \<^verbatim>\<open>i\<close>, \<^verbatim>\<open>m\<close>, is a
  regular expression filter. Every other text is a tree expression.

  A text of the two kinds of filter is evaluated as a filter:
  \<^verbatim>\<open>EventFilter.setFromString\<close> receives the text as it is, and \<^verbatim>\<open>query\<close> throws
  \<^verbatim>\<open>'Invalid regex.'\<close> when it fails to parse the text and otherwise returns the events
  of the zone indices that pass the evaluator of the filter, sorted by the comparison
  function of events; the XPath library plays no part. \<^verbatim>\<open>query\<close> makes the same call for
  both kinds: it is the filter that reads the text as a substring or as a regular
  expression.

  A tree expression is not empty, so it is the text itself, and not the default
  \<^verbatim>\<open>'.'\<close>, that the XPath library compiles and evaluates with the database as the
  context node; what that evaluation yields or throws is what \<^verbatim>\<open>query\<close> returns or
  throws, and no filter plays a part.
\<close>

theorem query_classification:
  "classify expr =
     (if (\<forall>rest. expr \<noteq> SLASH # rest) \<and> LPAREN \<notin> set expr then SubstringFilter
      else if (\<exists>body flags. expr = [SLASH] @ body @ [SLASH] @ flags \<and> body \<noteq> [] \<and>
                 (\<forall>c \<in> set body. \<not> lineTerminator c) \<and> set flags \<subseteq> set (ascii ''gim''))
      then RegexFilter
      else TreeExpression) \<and>
   (classify expr = SubstringFilter \<or> classify expr = RegexFilter \<longrightarrow>
      query I c d expr t0 t1 =
        (if parse_failed (setFromString c expr) then Inl InvalidRegex
         else case getEvaluator (setFromString c expr) of
                None \<Rightarrow> Inl TypeError
              | Some ev \<Rightarrow>
                  Inr \<lparr>qr_expr = expr, qr_compiledExpr = CompiledFilter (ev_toString ev),
                       qr_duration = t1 - t0,
                       qr_result = FilterResult
                         (Array_sort (comparer c)
                            (map to_item (filter (passes I (Some ev)) (visited c d))))\<rparr>)) \<and>
   (classify expr = TreeExpression \<longrightarrow>
      expr \<noteq> [] \<and>
      query I c d expr t0 t1 =
        (case evaluate c expr d of
           Inl err \<Rightarrow> Inl err
         | Inr v \<Rightarrow>
             Inr \<lparr>qr_expr = expr, qr_compiledExpr = CompiledXPath expr,
                  qr_duration = t1 - t0, qr_result = XPathResult v\<rparr>))"
proof (intro conjI impI)
  show "classify expr =
     (if (\<forall>rest. expr \<noteq> SLASH # rest) \<and> LPAREN \<notin> set expr then SubstringFilter
      else if (\<exists>body flags. expr = [SLASH] @ body @ [SLASH] @ flags \<and> body \<noteq> [] \<and>
                 (\<forall>c \<in> set body. \<not> lineTerminator c) \<and> set flags \<subseteq> set (ascii ''gim''))
      then RegexFilter
      else TreeExpression)"
    unfolding classify_def charAt_0 indexOf_absent matches_regex_literal ..
next
  assume "classify expr = SubstringFilter \<or> classify expr = RegexFilter"
  then have "isFilter expr"
    by (auto simp: isFilter_def)
  then show "query I c d expr t0 t1 =
        (if parse_failed (setFromString c expr) then Inl InvalidRegex
         else case getEvaluator (setFromString c expr) of
                None \<Rightarrow> Inl TypeError
              | Some ev \<Rightarrow>
                  Inr \<lparr>qr_expr = expr, qr_compiledExpr = CompiledFilter (ev_toString ev),
                       qr_duration = t1 - t0,
                       qr_result = FilterResult
                         (Array_sort (comparer c)
                            (map to_item (filter (passes I (Some ev)) (visited c d))))\<rparr>)"
    by (simp add: query_filter_outcome query_filter_sorted split: option.splits)
next
  assume tree: "classify expr = TreeExpression"
  then show "expr \<noteq> []"
    by (rule classify_TreeExpression_nonempty)
  with tree show "query I c d expr t0 t1 =
        (case evaluate c expr d of
           Inl err \<Rightarrow> Inl err
         | Inr v \<Rightarrow>
             Inr \<lparr>qr_expr = expr, qr_compiledExpr = CompiledXPath expr,
                  qr_duration = t1 - t0, qr_result = XPathResult v\<rparr>)"
    by (simp add: query_def isFilter_def query_as_xpath_def)
qed

theorem query_classification_witness:
  "classify (ascii ''/foo/gi'') = RegexFilter \<and>
   classify (ascii ''enter'') = SubstringFilter \<and>
   classify (ascii ''//zone'') = TreeExpression \<and>
   query S1_INTERNAL Q_collaborators Q_db (ascii ''enter'') 0 1 =
     Inr \<lparr>qr_expr = ascii ''enter'',
          qr_compiledExpr = CompiledFilter ''function (e) { return isScopeEnter(e); }'',
          qr_duration = 1,
          qr_result = FilterResult
            [ScopeItem (Q_event S1_scopeEnter 5 4 True),
             ScopeItem (Q_event S1_scopeEnter 10 2 True)]\<rparr> \<and>
   query S1_INTERNAL T_collaborators Q_db (ascii ''//zone'') 0 1 =
     Inr \<lparr>qr_expr = ascii ''//zone'', qr_compiledExpr = CompiledXPath (ascii ''//zone''),
          qr_duration = 1, qr_result = XPathResult 2\<rparr>"
proof -
  have "\<exists>body flags. ascii ''/foo/gi'' = [SLASH] @ body @ [SLASH] @ flags \<and> body \<noteq> [] \<and>
      (\<forall>c \<in> set body. \<not> lineTerminator c) \<and> set flags \<subseteq> set (ascii ''gim'')"
    by (intro exI [of _ "ascii ''foo''"] exI [of _ "ascii ''gi''"])
      (simp add: ascii_def SLASH_def lineTerminator_def)
  moreover have "ascii ''/foo/gi'' = SLASH # ascii ''foo/gi''"
    by (simp add: ascii_def SLASH_def)
  ultimately have regex: "classify (ascii ''/foo/gi'') = RegexFilter"
    using query_classification [of "ascii ''/foo/gi''", THEN conjunct1] by simp
  have sub: "classify (ascii ''enter'') = SubstringFilter"
    using query_classification [of "ascii ''enter''", THEN conjunct1]
    by (simp add: ascii_def SLASH_def LPAREN_def)
  have tree: "classify (ascii ''//zone'') = TreeExpression"
    by (simp add: classify_def ascii_def charAt_def SLASH_def LPAREN_def indexOf_def
        regex_literal_def lineTerminator_def)
  have filter: "setFromString Q_collaborators (ascii ''enter'') =
      \<lparr>parse_failed = False, getEvaluator = Some Q_evaluator\<rparr>"
    by (simp add: Q_collaborators_def ascii_def)
  have cmp: "comparer Q_collaborators = by_time_position"
    by (simp add: Q_collaborators_def)
  have "query S1_INTERNAL Q_collaborators Q_db (ascii ''enter'') 0 1 =
     Inr \<lparr>qr_expr = ascii ''enter'',
          qr_compiledExpr = CompiledFilter ''function (e) { return isScopeEnter(e); }'',
          qr_duration = 1,
          qr_result = FilterResult
            [ScopeItem (Q_event S1_scopeEnter 5 4 True),
             ScopeItem (Q_event S1_scopeEnter 10 2 True)]\<rparr>"
    using query_classification [of "ascii ''enter''" S1_INTERNAL Q_collaborators Q_db 0 1] sub
    by (simp add: filter cmp Q_passes_enter Q_sorted_enter) (simp add: Q_evaluator_def)
  moreover have "query S1_INTERNAL T_collaborators Q_db (ascii ''//zone'') 0 1 =
     Inr \<lparr>qr_expr = ascii ''//zone'', qr_compiledExpr = CompiledXPath (ascii ''//zone''),
          qr_duration = 1, qr_result = XPathResult 2\<rparr>"
    using query_classification [of "ascii ''//zone''" S1_INTERNAL T_collaborators Q_db 0 1] tree
    by (simp add: T_collaborators_def Q_db_def new_EventDatabase_def)
  ultimately show ?thesis
    using regex sub tree by simp
qed

text \<open>
  C3. The empty query text is a filter, and the filter of the example parses it and has
  no evaluator for it, which the callback of \<^verbatim>\<open>query\<close> takes to match every event.
  The array the filter branch builds then holds the three events of the database whose
  type does not have the \<^verbatim>\<open>INTERNAL\<close> flag, the scope events as their scopes, ordered by
  time. \<^verbatim>\<open>query\<close> does not return it: the call of \<^verbatim>\<open>toString\<close> on the evaluator that
  follows the sort throws a \<^verbatim>\<open>TypeError\<close>, so that for no clock readings is there a
  result.
\<close>

theorem query_match_all_no_result:
  "isFilter [] \<and>
   \<not> parse_failed (setFromString Q_collaborators []) \<and>
   getEvaluator (setFromString Q_collaborators []) = None \<and>
   query_filter S1_INTERNAL Q_collaborators Q_db None =
     [ScopeItem (Q_event S1_scopeEnter 5 4 True), ScopeItem (Q_event S1_scopeEnter 10 2 True),
      EventItem (Q_event S1_scopeLeave 30 3 False)] \<and>
   (\<forall>t0 t1 r. query S1_INTERNAL Q_collaborators Q_db [] t0 t1 \<noteq> Inr r)"
proof -
  have filter: "isFilter []"
    by (simp add: isFilter_def classify_def charAt_def indexOf_def)
  have none: "setFromString Q_collaborators [] = \<lparr>parse_failed = False, getEvaluator = None\<rparr>"
    by (simp add: Q_collaborators_def)
  have cmp: "comparer Q_collaborators = by_time_position"
    by (simp add: Q_collaborators_def)
  have built: "query_filter S1_INTERNAL Q_collaborators Q_db None =
     [ScopeItem (Q_event S1_scopeEnter 5 4 True), ScopeItem (Q_event S1_scopeEnter 10 2 True),
      EventItem (Q_event S1_scopeLeave 30 3 False)]"
    by (simp add: query_filter_sorted Q_passes_all cmp)
      (simp add: Array_sort_def by_time_position_def to_item_def Q_event_def S1_event_def)
  have "query S1_INTERNAL Q_collaborators Q_db [] t0 t1 = Inl TypeError" for t0 t1
    using filter by (simp add: query_def query_as_filter_def none)
  then have "\<forall>t0 t1 r. query S1_INTERNAL Q_collaborators Q_db [] t0 t1 \<noteq> Inr r"
    by simp
  with filter none built show ?thesis
    by simp
qed

text \<open>
  C9. For a text that is classified as a filter, \<^verbatim>\<open>query\<close> throws
  \<^verbatim>\<open>'Invalid regex.'\<close> when the filter fails to parse, and returns a result with the
  text, the source of the evaluator, the duration and the result sequence when the
  filter has an evaluator (\<open>query_filter_outcome\<close>). A filter that parses and has no
  evaluator, which the callback of \<^verbatim>\<open>query\<close> takes to match every event, makes
  \<^verbatim>\<open>query\<close> throw a \<^verbatim>\<open>TypeError\<close> at \<^verbatim>\<open>filter.getEvaluator().toString()\<close>: the empty
  query text is classified as a filter and, with a filter that has no evaluator for it,
  no result is returned.
\<close>

theorem query_null_evaluator_throws:
  "classify [] = SubstringFilter \<and>
   parse_failed (setFromString Q_collaborators []) = False \<and>
   getEvaluator (setFromString Q_collaborators []) = None \<and>
   query S1_INTERNAL Q_collaborators Q_db [] 0 1 = Inl TypeError"
proof -
  have sub: "classify [] = SubstringFilter"
    by (simp add: classify_def charAt_def indexOf_def)
  then have "isFilter []"
    by (simp add: isFilter_def)
  from query_filter_outcome [OF this, of S1_INTERNAL Q_collaborators Q_db 0 1] sub
  show ?thesis
    by (simp add: Q_collaborators_def)
qed

end
